theory Spec2Isabelle
  imports Main
begin

section \<open>Instants, durations and times of day\<close>

text \<open>
  A Go \<^verbatim>\<open>time.Time\<close> is modelled as its number of nanoseconds since the Unix epoch
  (an unbounded integer; every instant the handlers can parse lies between the years 0
  and 9999, far from the ends of Go's range). A \<^verbatim>\<open>time.Duration\<close> is a signed
  64-bit count of nanoseconds, and Go's multiplication of durations wraps around.
\<close>

type_synonym instant = int

definition Second :: int where "Second = 1000000000"
definition Minute :: int where "Minute = 60000000000"
definition Hour :: int where "Hour = 3600000000000"
definition Day :: int where "Day = 86400000000000"

definition int64_wrap :: "int \<Rightarrow> int" where
  "int64_wrap x = (x + 9223372036854775808) mod 18446744073709551616 - 9223372036854775808"

text \<open>\<^verbatim>\<open>time.Duration(r.SlotLengthMins) * time.Minute\<close>, an int64 product.\<close>

definition minutes_duration :: "int \<Rightarrow> int" where
  "minutes_duration n = int64_wrap (n * Minute)"

text \<open>\<^verbatim>\<open>t.Truncate(24 * time.Hour)\<close>: the midnight (UTC) at or before \<open>t\<close>.\<close>

definition Truncate24h :: "instant \<Rightarrow> instant" where
  "Truncate24h t = t - t mod Day"

text \<open>\<^verbatim>\<open>int(t.Weekday())\<close>, Sunday = 0; the epoch was a Thursday.\<close>

definition Weekday :: "instant \<Rightarrow> int" where
  "Weekday t = (t div Day + 4) mod 7"

text \<open>\<^verbatim>\<open>t.Unix()\<close>: whole seconds since the epoch, rounded down.\<close>

definition Unix :: "instant \<Rightarrow> int" where
  "Unix t = t div Second"

subsection \<open>Parsing \<^verbatim>\<open>HH:MM\<close>\<close>

text \<open>
  \<^verbatim>\<open>time.Parse("15:04", s)\<close>: an hour of one or two digits below 24, a colon, a
  minute of exactly two digits below 60, and nothing more. The result is kept as the
  pair (hour, minute); Go places it on 1 January of year 0, so two results compare as
  their offsets from midnight do.
\<close>

definition isDigit :: "char \<Rightarrow> bool" where
  "isDigit c \<longleftrightarrow> (48::nat) \<le> of_char c \<and> of_char c \<le> (57::nat)"

definition digit_val :: "char \<Rightarrow> nat" where
  "digit_val c = of_char c - 48"

fun getnum :: "string \<Rightarrow> bool \<Rightarrow> (nat \<times> string) option" where
  "getnum [] fixed = None"
| "getnum [c] fixed =
     (if \<not> isDigit c then None
      else if fixed then None
      else Some (digit_val c, []))"
| "getnum (c # d # rest) fixed =
     (if \<not> isDigit c then None
      else if \<not> isDigit d then (if fixed then None else Some (digit_val c, d # rest))
      else Some (digit_val c * 10 + digit_val d, rest))"

type_synonym time_of_day = "nat \<times> nat"

definition time_Parse_1504 :: "string \<Rightarrow> time_of_day option" where
  "time_Parse_1504 s =
     (case getnum s False of
        None \<Rightarrow> None
      | Some (hour, rest) \<Rightarrow>
          if 24 \<le> hour then None
          else (case rest of
                  [] \<Rightarrow> None
                | c # rest' \<Rightarrow>
                    if c \<noteq> CHR '':'' then None
                    else (case getnum rest' True of
                            None \<Rightarrow> None
                          | Some (minute, rest'') \<Rightarrow>
                              if 60 \<le> minute then None
                              else if rest'' \<noteq> [] then None
                              else Some (hour, minute))))"

definition tod_offset :: "time_of_day \<Rightarrow> int" where
  "tod_offset t = int (fst t) * Hour + int (snd t) * Minute"

text \<open>\<^verbatim>\<open>a.After(b)\<close> on two parsed times of day.\<close>

definition tod_After :: "time_of_day \<Rightarrow> time_of_day \<Rightarrow> bool" where
  "tod_After a b \<longleftrightarrow> tod_offset b < tod_offset a"

text \<open>
  \<^verbatim>\<open>y, m, d := day.Date(); time.Date(y, m, d, t.Hour(), t.Minute(), 0, 0, time.UTC)\<close>:
  the given time of day on the calendar day (UTC) of \<open>day\<close>.
\<close>

definition Date_at :: "instant \<Rightarrow> time_of_day \<Rightarrow> instant" where
  "Date_at day t = Truncate24h day + tod_offset t"

section \<open>Errors\<close>

datatype db_call =
    CallInsertAvailabilityRule | CallGetAvailabilityRule | CallListAvailabilityRules
  | CallUpdateAvailabilityRule | CallListBookingsInRange | CallCheckExistingBookingAtStart
  | CallInsertBooking | CallGetBookingStatus | CallCancelBooking | CallBegin | CallCommit

datatype error =
    InvalidTimeString string
  | ParseError string
  | EndNotAfterStart
  | EndNotAfterStartForRule nat
  | SlotAlreadyBooked
  | SlotNotAvailable
  | BookingNotFound
  | AlreadyCancelled
  | NoTransactions
  | ErrNoRows
  | StorageError db_call

text \<open>
  \<^verbatim>\<open>parseHHMM\<close>: the first five bytes of the string, parsed as above; shorter
  strings are refused.
\<close>

definition parseHHMM :: "string \<Rightarrow> error + time_of_day" where
  "parseHHMM s =
     (if length s < 5 then Inl (InvalidTimeString s)
      else (case time_Parse_1504 (take 5 s) of
              None \<Rightarrow> Inl (ParseError (take 5 s))
            | Some t \<Rightarrow> Inr t))"

section \<open>Records\<close>

record AvailabilityRule =
  ID :: nat
  UserID :: string
  DayOfWeek :: int
  StartTime :: string
  EndTime :: string
  SlotLengthMins :: int
  Title :: string
  Available :: bool
  CreatedAt :: instant
  UpdatedAt :: instant

record Booking =
  BookingID :: nat
  BookingUserID :: string
  CandidateEmail :: string
  StartAtUTC :: instant
  EndAtUTC :: instant
  Status :: string
  Source :: string
  Type :: string
  Description :: string
  BookingTitle :: string
  BookingCreatedAt :: instant

record Slot =
  StartUTC :: instant
  EndUTC :: instant

section \<open>Slot derivation\<close>

text \<open>
  The innermost loop of \<^verbatim>\<open>GenerateAvailableSlots\<close>:
  \<^verbatim>\<open>for s0 := utcStart; s0.Add(slotLen).Equal(utcEnd) || s0.Add(slotLen).Before(utcEnd); s0 = s0.Add(slotLen)\<close>.
  Nothing in the source bounds it when \<open>slotLen\<close> is not positive, so it is a
  partial function: \<open>None\<close> means that the loop does not return.
\<close>

partial_function (option) tile_loop ::
  "int \<Rightarrow> instant \<Rightarrow> instant \<Rightarrow> instant \<Rightarrow> bool \<Rightarrow> instant \<Rightarrow> Slot list \<Rightarrow> Slot list option"
where
  "tile_loop slotLen utcEnd fromUTC toUTC avail s0 candidate =
     (if s0 + slotLen \<le> utcEnd then
        (if \<not> (fromUTC < s0 + slotLen) \<or> \<not> (s0 < toUTC)
           then tile_loop slotLen utcEnd fromUTC toUTC avail (s0 + slotLen) candidate
         else if \<not> avail
           then tile_loop slotLen utcEnd fromUTC toUTC avail (s0 + slotLen) candidate
         else tile_loop slotLen utcEnd fromUTC toUTC avail (s0 + slotLen)
                (candidate @ [\<lparr>StartUTC = s0, EndUTC = s0 + slotLen\<rparr>]))
      else Some candidate)"

declare tile_loop.simps [code]

section \<open>The store\<close>

text \<open>
  The two tables are lists of rows. Identifiers are the UUIDs that the database
  assigns (\<^verbatim>\<open>gen_random_uuid()\<close>); they are modelled as natural numbers drawn from
  a counter, so a fresh one is never the empty identifier. Every call to the database
  may fail: \<open>failing\<close> says which calls do, and \<open>can_begin\<close> says whether the
  handle offers \<^verbatim>\<open>Begin\<close> (the pool does). The clock is an argument: \<open>now\<close>
  stands for every \<^verbatim>\<open>time.Now()\<close> and \<^verbatim>\<open>now()\<close> of one call.
\<close>

record store =
  rules :: "AvailabilityRule list"
  bookings :: "Booking list"
  next_id :: nat
  can_begin :: bool
  failing :: "db_call \<Rightarrow> bool"

definition healthy :: "store \<Rightarrow> bool" where
  "healthy st \<longleftrightarrow> can_begin st \<and> (\<forall>c. \<not> failing st c)"

subsection \<open>Availability repository\<close>

text \<open>\<^verbatim>\<open>INSERT INTO availability_rules ... RETURNING id\<close>; the id is written back into the rule.\<close>

definition InsertAvailabilityRule ::
  "store \<Rightarrow> instant \<Rightarrow> AvailabilityRule \<Rightarrow> error + (AvailabilityRule \<times> store)" where
  "InsertAvailabilityRule st now ar =
     (if failing st CallInsertAvailabilityRule then Inl (StorageError CallInsertAvailabilityRule)
      else let newID = next_id st
           in Inr (ar\<lparr>ID := newID\<rparr>,
                   st\<lparr>rules := rules st @ [ar\<lparr>ID := newID, CreatedAt := now, UpdatedAt := now\<rparr>],
                      next_id := Suc newID\<rparr>))"

text \<open>\<^verbatim>\<open>SELECT ... FROM availability_rules WHERE id=$1 AND user_id=$2\<close>, one row.\<close>

definition GetAvailabilityRule :: "store \<Rightarrow> string \<Rightarrow> nat \<Rightarrow> error + AvailabilityRule" where
  "GetAvailabilityRule st userID ruleID =
     (if failing st CallGetAvailabilityRule then Inl (StorageError CallGetAvailabilityRule)
      else (case filter (\<lambda>r. ID r = ruleID \<and> UserID r = userID) (rules st) of
              [] \<Rightarrow> Inl ErrNoRows
            | r # _ \<Rightarrow> Inr r))"

text \<open>\<^verbatim>\<open>SELECT ... FROM availability_rules WHERE user_id=$1 ORDER BY id\<close>.\<close>

definition ListAvailabilityRules :: "store \<Rightarrow> string \<Rightarrow> error + AvailabilityRule list" where
  "ListAvailabilityRules st userID =
     (if failing st CallListAvailabilityRules then Inl (StorageError CallListAvailabilityRules)
      else Inr (sort_key ID (filter (\<lambda>r. UserID r = userID) (rules st))))"

text \<open>
  \<^verbatim>\<open>UPDATE availability_rules SET day_of_week=$1, start_time=$2, end_time=$3,
  slot_length_minutes=$4, title=$5, available=$6, updated_at=$7 WHERE id=$8 AND user_id=$9
  RETURNING id\<close>; scanning the returned id fails with \<^verbatim>\<open>ErrNoRows\<close> when no row matched.
\<close>

definition UpdateAvailabilityRule ::
  "store \<Rightarrow> instant \<Rightarrow> string \<Rightarrow> nat \<Rightarrow> AvailabilityRule \<Rightarrow> error + (nat \<times> store)" where
  "UpdateAvailabilityRule st now userID ruleID ar =
     (if failing st CallUpdateAvailabilityRule then Inl (StorageError CallUpdateAvailabilityRule)
      else let hit = (\<lambda>r. ID r = ruleID \<and> UserID r = userID)
           in (case filter hit (rules st) of
                 [] \<Rightarrow> Inl ErrNoRows
               | r # _ \<Rightarrow>
                   Inr (ID r,
                        st\<lparr>rules :=
                             map (\<lambda>r. if hit r
                                       then r\<lparr>DayOfWeek := DayOfWeek ar, StartTime := StartTime ar,
                                              EndTime := EndTime ar,
                                              SlotLengthMins := SlotLengthMins ar,
                                              Title := Title ar, Available := Available ar,
                                              UpdatedAt := now\<rparr>
                                       else r)
                                 (rules st)\<rparr>)))"

subsection \<open>Booking repository\<close>

text \<open>
  \<^verbatim>\<open>SELECT ... FROM bookings WHERE user_id=$1 AND start_at_utc >= $2 AND start_at_utc < $3
  AND status='confirmed'\<close>.
\<close>

definition ListBookingsInRange ::
  "store \<Rightarrow> string \<Rightarrow> instant \<Rightarrow> instant \<Rightarrow> error + Booking list" where
  "ListBookingsInRange st userID from to =
     (if failing st CallListBookingsInRange then Inl (StorageError CallListBookingsInRange)
      else Inr (filter (\<lambda>b. BookingUserID b = userID \<and> from \<le> StartAtUTC b \<and> StartAtUTC b < to
                              \<and> Status b = ''confirmed'')
                       (bookings st)))"

text \<open>
  \<^verbatim>\<open>SELECT id FROM bookings WHERE user_id=$1 AND status='confirmed' AND start_at_utc = $2
  FOR UPDATE\<close>. The source returns the empty id together with \<^verbatim>\<open>ErrNoRows\<close> when
  there is no such row; that outcome is \<open>Inr None\<close> here.
\<close>

definition CheckExistingBookingAtStart ::
  "store \<Rightarrow> string \<Rightarrow> instant \<Rightarrow> error + nat option" where
  "CheckExistingBookingAtStart st userID start =
     (if failing st CallCheckExistingBookingAtStart
        then Inl (StorageError CallCheckExistingBookingAtStart)
      else (case filter (\<lambda>b. BookingUserID b = userID \<and> Status b = ''confirmed''
                                \<and> StartAtUTC b = start)
                        (bookings st) of
              [] \<Rightarrow> Inr None
            | b # _ \<Rightarrow> Inr (Some (BookingID b))))"

text \<open>
  \<^verbatim>\<open>INSERT INTO bookings (...) VALUES (gen_random_uuid(), $1, $2, $3, $4, 'confirmed',
  $5, $6, $7, $8, now()) RETURNING id\<close>.
\<close>

definition InsertBooking :: "store \<Rightarrow> instant \<Rightarrow> Booking \<Rightarrow> error + (nat \<times> store)" where
  "InsertBooking st now b =
     (if failing st CallInsertBooking then Inl (StorageError CallInsertBooking)
      else let newID = next_id st
           in Inr (newID,
                   st\<lparr>bookings := bookings st @
                         [b\<lparr>BookingID := newID, Status := ''confirmed'', BookingCreatedAt := now\<rparr>],
                      next_id := Suc newID\<rparr>))"

text \<open>\<^verbatim>\<open>SELECT status FROM bookings WHERE id=$1\<close>.\<close>

definition GetBookingStatus :: "store \<Rightarrow> nat \<Rightarrow> error + string" where
  "GetBookingStatus st id' =
     (if failing st CallGetBookingStatus then Inl (StorageError CallGetBookingStatus)
      else (case filter (\<lambda>b. BookingID b = id') (bookings st) of
              [] \<Rightarrow> Inl ErrNoRows
            | b # _ \<Rightarrow> Inr (Status b)))"

text \<open>
  \<^verbatim>\<open>UPDATE bookings SET status='cancelled' WHERE id=$1 AND status != 'cancelled'\<close>,
  returning the number of rows affected.
\<close>

definition BookingRepo_CancelBooking :: "store \<Rightarrow> nat \<Rightarrow> error + (nat \<times> store)" where
  "BookingRepo_CancelBooking st id' =
     (if failing st CallCancelBooking then Inl (StorageError CallCancelBooking)
      else let hit = (\<lambda>b. BookingID b = id' \<and> Status b \<noteq> ''cancelled'')
           in Inr (length (filter hit (bookings st)),
                   st\<lparr>bookings := map (\<lambda>b. if hit b then b\<lparr>Status := ''cancelled''\<rparr> else b)
                                       (bookings st)\<rparr>))"

subsection \<open>The loops of \<^verbatim>\<open>GenerateAvailableSlots\<close>\<close>

text \<open>\<^verbatim>\<open>for _, r := range rules\<close>, for one day.\<close>

fun rules_loop ::
  "instant \<Rightarrow> instant \<Rightarrow> instant \<Rightarrow> AvailabilityRule list \<Rightarrow> Slot list
     \<Rightarrow> (error + Slot list) option" where
  "rules_loop day fromUTC toUTC [] candidate = Some (Inr candidate)"
| "rules_loop day fromUTC toUTC (r # rs) candidate =
     (if Weekday day \<noteq> DayOfWeek r then rules_loop day fromUTC toUTC rs candidate
      else (case parseHHMM (StartTime r) of
              Inl e \<Rightarrow> Some (Inl e)
            | Inr startTOD \<Rightarrow>
               (case parseHHMM (EndTime r) of
                  Inl e \<Rightarrow> Some (Inl e)
                | Inr endTOD \<Rightarrow>
                    if \<not> tod_After endTOD startTOD
                      then Some (Inl (EndNotAfterStartForRule (ID r)))
                    else (case tile_loop (minutes_duration (SlotLengthMins r))
                                 (Date_at day endTOD) fromUTC toUTC (Available r)
                                 (Date_at day startTOD) candidate of
                            None \<Rightarrow> None
                          | Some candidate' \<Rightarrow> rules_loop day fromUTC toUTC rs candidate'))))"

text \<open>\<^verbatim>\<open>for day := startDate; !day.After(endDate); day = day.Add(24 * time.Hour)\<close>.\<close>

function days_loop ::
  "instant \<Rightarrow> instant \<Rightarrow> instant \<Rightarrow> instant \<Rightarrow> AvailabilityRule list \<Rightarrow> Slot list
     \<Rightarrow> (error + Slot list) option" where
  "days_loop day endDate fromUTC toUTC rs candidate =
     (if day \<le> endDate then
        (case rules_loop day fromUTC toUTC rs candidate of
           None \<Rightarrow> None
         | Some (Inl e) \<Rightarrow> Some (Inl e)
         | Some (Inr candidate') \<Rightarrow>
             days_loop (day + 24 * Hour) endDate fromUTC toUTC rs candidate')
      else Some (Inr candidate))"
  by pat_completeness auto
termination
  by (relation "measure (\<lambda>(day, endDate, fromUTC, toUTC, rs, candidate). nat (endDate + 1 - day))")
     (auto simp: Hour_def)

text \<open>
  \<^verbatim>\<open>GenerateAvailableSlots\<close>. The result \<open>None\<close> means that the call does not return.
\<close>

definition GenerateAvailableSlots ::
  "store \<Rightarrow> string \<Rightarrow> instant \<Rightarrow> instant \<Rightarrow> (error + Slot list) option" where
  "GenerateAvailableSlots st userID fromUTC toUTC =
     (case ListAvailabilityRules st userID of
        Inl e \<Rightarrow> Some (Inl e)
      | Inr rs \<Rightarrow>
          if length rs = 0 then Some (Inr [])
          else (case days_loop (Truncate24h fromUTC) (Truncate24h toUTC) fromUTC toUTC rs [] of
                  None \<Rightarrow> None
                | Some (Inl e) \<Rightarrow> Some (Inl e)
                | Some (Inr candidate) \<Rightarrow>
                    (case ListBookingsInRange st userID (fromUTC - 1 * Hour) (toUTC + 1 * Hour) of
                       Inl e \<Rightarrow> Some (Inl e)
                     | Inr bs \<Rightarrow>
                         let booked = set (map (\<lambda>b. Unix (StartAtUTC b)) bs)
                         in Some (Inr (filter (\<lambda>sl. Unix (StartUTC sl) \<notin> booked) candidate)))))"


section \<open>Availability service\<close>

text \<open>\<^verbatim>\<open>validateAvailabilityRule\<close>; \<open>None\<close> is Go's \<^verbatim>\<open>nil\<close> error.\<close>

definition validateAvailabilityRule :: "AvailabilityRule \<Rightarrow> error option" where
  "validateAvailabilityRule rule =
     (case time_Parse_1504 (StartTime rule) of
        None \<Rightarrow> Some (ParseError (StartTime rule))
      | Some startTime \<Rightarrow>
          (case time_Parse_1504 (EndTime rule) of
             None \<Rightarrow> Some (ParseError (EndTime rule))
           | Some endTime \<Rightarrow>
               if \<not> tod_After endTime startTime then Some EndNotAfterStart else None))"

text \<open>
  \<^verbatim>\<open>SetAvailability\<close>: the loop over the batch, with the rules saved so far. An
  error returns \<^verbatim>\<open>nil\<close> for the saved rules, and the store keeps what earlier
  iterations inserted.
\<close>

fun SetAvailability_loop ::
  "store \<Rightarrow> instant \<Rightarrow> string \<Rightarrow> AvailabilityRule list \<Rightarrow> AvailabilityRule list
     \<Rightarrow> (error + AvailabilityRule list) \<times> store" where
  "SetAvailability_loop st now userID [] saved = (Inr saved, st)"
| "SetAvailability_loop st now userID (r # rs) saved =
     (let r' = r\<lparr>UserID := userID, CreatedAt := now, UpdatedAt := now\<rparr>
      in (case validateAvailabilityRule r' of
            Some e \<Rightarrow> (Inl e, st)
          | None \<Rightarrow>
              (case InsertAvailabilityRule st now r' of
                 Inl e \<Rightarrow> (Inl e, st)
               | Inr (r'', st') \<Rightarrow> SetAvailability_loop st' now userID rs (saved @ [r'']))))"

definition SetAvailability ::
  "store \<Rightarrow> instant \<Rightarrow> string \<Rightarrow> AvailabilityRule list
     \<Rightarrow> (error + AvailabilityRule list) \<times> store" where
  "SetAvailability st now userID rs = SetAvailability_loop st now userID rs []"

definition UpdateAvailability ::
  "store \<Rightarrow> instant \<Rightarrow> string \<Rightarrow> nat \<Rightarrow> AvailabilityRule
     \<Rightarrow> (error + AvailabilityRule) \<times> store" where
  "UpdateAvailability st now userID ruleID rule =
     (case GetAvailabilityRule st userID ruleID of
        Inl e \<Rightarrow> (Inl e, st)
      | Inr existing \<Rightarrow>
          let rule' = (if DayOfWeek rule = 0 then rule\<lparr>DayOfWeek := DayOfWeek existing\<rparr>
                       else rule)
          in (case validateAvailabilityRule rule' of
                Some e \<Rightarrow> (Inl e, st)
              | None \<Rightarrow>
                  (case UpdateAvailabilityRule st now userID ruleID rule' of
                     Inl e \<Rightarrow> (Inl e, st)
                   | Inr (id', st') \<Rightarrow>
                       (case GetAvailabilityRule st' userID id' of
                          Inl e \<Rightarrow> (Inl e, st')
                        | Inr updatedRule \<Rightarrow> (Inr updatedRule, st')))))"

section \<open>Booking service\<close>

record CreateBookingParams =
  ReqCandidateEmail :: string
  ReqStart :: instant
  ReqEnd :: instant
  ReqSource :: string
  ReqType :: string
  ReqDescription :: string
  ReqTitle :: string

text \<open>
  \<^verbatim>\<open>CreateBooking\<close>. The existence check and the insert run in a transaction, the
  slot derivation reads through the pool. What the transaction wrote reaches the store at
  \<^verbatim>\<open>Commit\<close> only: every earlier return runs the deferred \<^verbatim>\<open>Rollback\<close> and
  leaves the store as it was. \<open>None\<close> means that the call does not return.
\<close>

definition CreateBooking ::
  "store \<Rightarrow> instant \<Rightarrow> string \<Rightarrow> CreateBookingParams \<Rightarrow> ((error + Booking) \<times> store) option" where
  "CreateBooking st now userID req =
     (let start = ReqStart req; end' = ReqEnd req
      in if \<not> can_begin st then Some (Inl NoTransactions, st)
         else if failing st CallBegin then Some (Inl (StorageError CallBegin), st)
         else (case CheckExistingBookingAtStart st userID start of
                 Inl e \<Rightarrow> Some (Inl e, st)
               | Inr (Some _) \<Rightarrow> Some (Inl SlotAlreadyBooked, st)
               | Inr None \<Rightarrow>
                   (case GenerateAvailableSlots st userID (start - 1 * Second) (end' + 1 * Second) of
                      None \<Rightarrow> None
                    | Some (Inl e) \<Rightarrow> Some (Inl e, st)
                    | Some (Inr slots) \<Rightarrow>
                        if \<not> list_ex (\<lambda>s. StartUTC s = start \<and> EndUTC s = end') slots
                          then Some (Inl SlotNotAvailable, st)
                        else
                          let b = \<lparr>BookingID = 0, BookingUserID = userID,
                                   CandidateEmail = ReqCandidateEmail req,
                                   StartAtUTC = start, EndAtUTC = end',
                                   Status = ''confirmed'', Source = ReqSource req,
                                   Type = ReqType req, Description = ReqDescription req,
                                   BookingTitle = ReqTitle req, BookingCreatedAt = now\<rparr>
                          in (case InsertBooking st now b of
                                Inl e \<Rightarrow> Some (Inl e, st)
                              | Inr (newID, st') \<Rightarrow>
                                  if failing st CallCommit
                                    then Some (Inl (StorageError CallCommit), st)
                                  else Some (Inr (b\<lparr>BookingID := newID\<rparr>), st')))))"

text \<open>
  \<^verbatim>\<open>CancelBooking\<close> reads the status and then runs the conditional update, two
  separate statements on the pool. \<open>other\<close> is what other clients did to the store
  between the two; the plain call has nothing in between.
\<close>

definition CancelBooking_with ::
  "(store \<Rightarrow> store) \<Rightarrow> store \<Rightarrow> nat \<Rightarrow> error option \<times> store" where
  "CancelBooking_with other st id' =
     (case GetBookingStatus st id' of
        Inl e \<Rightarrow> (if e = ErrNoRows then (Some BookingNotFound, st) else (Some e, st))
      | Inr status \<Rightarrow>
          if status = ''cancelled'' then (Some AlreadyCancelled, st)
          else (case BookingRepo_CancelBooking (other st) id' of
                  Inl e \<Rightarrow> (Some e, other st)
                | Inr (n, st') \<Rightarrow>
                    if n = 0 then (Some BookingNotFound, st') else (None, st')))"

definition CancelBooking :: "store \<Rightarrow> nat \<Rightarrow> error option \<times> store" where
  "CancelBooking st id' = CancelBooking_with (\<lambda>s. s) st id'"


section \<open>The tiling in closed form\<close>

text \<open>
  What the tiling loop appends when the slot length is positive, as a total function;
  the loop is shown below to compute exactly this, and to return only then.
\<close>

function tiles :: "int \<Rightarrow> instant \<Rightarrow> instant \<Rightarrow> instant \<Rightarrow> bool \<Rightarrow> instant \<Rightarrow> Slot list" where
  "tiles slotLen utcEnd fromUTC toUTC avail s0 =
     (if 0 < slotLen \<and> s0 + slotLen \<le> utcEnd
      then (if fromUTC < s0 + slotLen \<and> s0 < toUTC \<and> avail
            then [\<lparr>StartUTC = s0, EndUTC = s0 + slotLen\<rparr>] else [])
           @ tiles slotLen utcEnd fromUTC toUTC avail (s0 + slotLen)
      else [])"
  by pat_completeness auto
termination
  by (relation "measure (\<lambda>(slotLen, utcEnd, fromUTC, toUTC, avail, s0). nat (utcEnd - s0))") auto

text \<open>The slots that one rule contributes on one day of the day loop.\<close>

definition rule_tiles :: "instant \<Rightarrow> instant \<Rightarrow> instant \<Rightarrow> AvailabilityRule \<Rightarrow> Slot list" where
  "rule_tiles day fromUTC toUTC r =
     (if Weekday day \<noteq> DayOfWeek r then []
      else (case parseHHMM (StartTime r) of
              Inl e \<Rightarrow> []
            | Inr startTOD \<Rightarrow>
               (case parseHHMM (EndTime r) of
                  Inl e \<Rightarrow> []
                | Inr endTOD \<Rightarrow>
                    if \<not> tod_After endTOD startTOD then []
                    else tiles (minutes_duration (SlotLengthMins r)) (Date_at day endTOD)
                           fromUTC toUTC (Available r) (Date_at day startTOD))))"

section \<open>Example data\<close>

text \<open>
  One user with one rule, Mondays from 09:00 to 10:00 in slots of 30 minutes, and the
  Monday 5 January 1970 (day 4 after the epoch), used to run the theorems below on
  concrete inputs.
\<close>

definition monday_rule :: AvailabilityRule where
  "monday_rule = \<lparr>ID = 1, UserID = ''u1'', DayOfWeek = 1, StartTime = ''09:00'',
     EndTime = ''10:00'', SlotLengthMins = 30, Title = ''office'', Available = True,
     CreatedAt = 0, UpdatedAt = 0\<rparr>"

definition no_faults :: "db_call \<Rightarrow> bool" where
  "no_faults c = False"

definition monday_store :: store where
  "monday_store = \<lparr>rules = [monday_rule], bookings = [], next_id = 2, can_begin = True,
     failing = no_faults\<rparr>"

definition nine_booking :: Booking where
  "nine_booking = \<lparr>BookingID = 7, BookingUserID = ''u1'', CandidateEmail = ''c@example.org'',
     StartAtUTC = 378000000000000, EndAtUTC = 379800000000000, Status = ''confirmed'',
     Source = ''api'', Type = ''call'', Description = ''intro'', BookingTitle = ''hello'',
     BookingCreatedAt = 5\<rparr>"

definition booked_store :: store where
  "booked_store = \<lparr>rules = [monday_rule], bookings = [nine_booking], next_id = 8,
     can_begin = True, failing = no_faults\<rparr>"

definition cancelled_store :: store where
  "cancelled_store = booked_store\<lparr>bookings := [nine_booking\<lparr>Status := ''cancelled''\<rparr>]\<rparr>"

text \<open>
  The same rule with a slot length of 307445764 minutes, whose count of nanoseconds
  wraps around to 29 minutes and 26.290448384 seconds, and with a slot length of
  153722868 minutes, whose count wraps around to a negative duration.
\<close>

definition wrapping_rule :: AvailabilityRule where
  "wrapping_rule = monday_rule\<lparr>SlotLengthMins := 307445764\<rparr>"

definition wrapping_store :: store where
  "wrapping_store = monday_store\<lparr>rules := [wrapping_rule]\<rparr>"

definition runaway_rule :: AvailabilityRule where
  "runaway_rule = monday_rule\<lparr>SlotLengthMins := 153722868\<rparr>"

definition runaway_store :: store where
  "runaway_store = monday_store\<lparr>rules := [runaway_rule]\<rparr>"

text \<open>
  A rule with one slot of two hours, Mondays from 09:00 to 11:00, and a confirmed
  booking of that slot.
\<close>

definition long_rule :: AvailabilityRule where
  "long_rule = monday_rule\<lparr>EndTime := ''11:00'', SlotLengthMins := 120\<rparr>"

definition long_booking :: Booking where
  "long_booking = nine_booking\<lparr>EndAtUTC := 385200000000000\<rparr>"

definition long_store :: store where
  "long_store = \<lparr>rules = [long_rule], bookings = [long_booking], next_id = 8,
     can_begin = True, failing = no_faults\<rparr>"

text \<open>
  Requests for the slot from 09:00 to 09:30, for 09:15 to 09:45, and for the second
  slot of the rule whose slot length wraps around.
\<close>

definition nine_request :: CreateBookingParams where
  "nine_request = \<lparr>ReqCandidateEmail = ''c@example.org'', ReqStart = 378000000000000,
     ReqEnd = 379800000000000, ReqSource = ''api'', ReqType = ''call'',
     ReqDescription = ''intro'', ReqTitle = ''hello''\<rparr>"

definition misaligned_request :: CreateBookingParams where
  "misaligned_request = nine_request\<lparr>ReqStart := 378900000000000, ReqEnd := 380700000000000\<rparr>"

definition wrapped_request :: CreateBookingParams where
  "wrapped_request = nine_request\<lparr>ReqStart := 379766290448384, ReqEnd := 381532580896768\<rparr>"

text \<open>
  The rule with its start time written \<^verbatim>\<open>9:00\<close>, which passes the validation at
  write time and which the derivation refuses; and the store whose \<^verbatim>\<open>Commit\<close> fails.
\<close>

definition short_time_rule :: AvailabilityRule where
  "short_time_rule = monday_rule\<lparr>StartTime := ''9:00''\<rparr>"

definition short_time_store :: store where
  "short_time_store = monday_store\<lparr>rules := [short_time_rule]\<rparr>"

definition commit_fails :: "db_call \<Rightarrow> bool" where
  "commit_fails c = (c = CallCommit)"

definition commit_failing_store :: store where
  "commit_failing_store = monday_store\<lparr>failing := commit_fails\<rparr>"

text \<open>
  An update that leaves the day of the week unset, and rules for a batch: one for the
  afternoon, and one whose end is before its start.
\<close>

definition update_input :: AvailabilityRule where
  "update_input = \<lparr>ID = 0, UserID = [], DayOfWeek = 0, StartTime = ''11:00'',
     EndTime = ''12:00'', SlotLengthMins = 20, Title = ''moved'', Available = False,
     CreatedAt = 0, UpdatedAt = 0\<rparr>"

definition afternoon_rule :: AvailabilityRule where
  "afternoon_rule = \<lparr>ID = 0, UserID = [], DayOfWeek = 2, StartTime = ''13:00'',
     EndTime = ''14:00'', SlotLengthMins = 30, Title = ''late'', Available = True,
     CreatedAt = 0, UpdatedAt = 0\<rparr>"

definition backwards_rule :: AvailabilityRule where
  "backwards_rule = afternoon_rule\<lparr>StartTime := ''10:00'', EndTime := ''09:00''\<rparr>"

definition backwards_input :: AvailabilityRule where
  "backwards_input = update_input\<lparr>StartTime := ''12:00'', EndTime := ''11:00''\<rparr>"

lemmas example_defs =
  monday_rule_def monday_store_def nine_booking_def booked_store_def no_faults_def
  wrapping_rule_def wrapping_store_def runaway_rule_def runaway_store_def
  long_rule_def long_booking_def long_store_def
  nine_request_def misaligned_request_def wrapped_request_def
  short_time_rule_def short_time_store_def commit_fails_def commit_failing_store_def
  update_input_def afternoon_rule_def backwards_rule_def cancelled_store_def
  backwards_input_def

section \<open>Days and times of day\<close>

lemma Day_eq: "24 * Hour = Day" "1 * Hour = Hour" "1 * Second = Second"
  by (simp_all add: Hour_def Day_def)

lemma time_Parse_1504_bounds:
  "time_Parse_1504 s = Some t \<Longrightarrow> fst t < 24 \<and> snd t < 60"
  by (auto simp: time_Parse_1504_def split: option.splits if_splits list.splits)

lemma parseHHMM_bounds:
  "parseHHMM s = Inr t \<Longrightarrow> fst t < 24 \<and> snd t < 60"
  by (auto simp: parseHHMM_def dest: time_Parse_1504_bounds split: option.splits if_splits)

lemma tod_offset_range:
  assumes "fst t < 24" "snd t < 60"
  shows "0 \<le> tod_offset t" "tod_offset t < Day" "tod_offset t mod Minute = 0"
proof -
  have h: "int (fst t) \<le> 23" and m: "int (snd t) \<le> 59" using assms by simp_all
  show "0 \<le> tod_offset t" by (simp add: tod_offset_def Hour_def Minute_def)
  show "tod_offset t < Day" using h m by (simp add: tod_offset_def Hour_def Minute_def Day_def)
  have "tod_offset t = (int (fst t) * 60 + int (snd t)) * Minute"
    by (simp add: tod_offset_def Hour_def Minute_def algebra_simps)
  then show "tod_offset t mod Minute = 0" by simp
qed

lemma Truncate24h_mod: "Truncate24h t mod Day = 0"
  by (simp add: Truncate24h_def Day_def minus_mod_eq_mult_div)

lemma Truncate24h_le: "Truncate24h t \<le> t"
  by (simp add: Truncate24h_def Day_def)

lemma Truncate24h_gt: "t < Truncate24h t + Day"
  by (simp add: Truncate24h_def Day_def)

lemma Truncate24h_midnight: "d mod Day = 0 \<Longrightarrow> Truncate24h d = d"
  by (simp add: Truncate24h_def)

lemma Truncate24h_add: "Truncate24h (d + int k * Day) = Truncate24h d + int k * Day"
  by (simp add: Truncate24h_def)

lemma midnight_le_Truncate24h:
  assumes "d mod Day = 0" "d \<le> t"
  shows "d \<le> Truncate24h t"
proof -
  have "d div Day \<le> t div Day" using assms(2) by (simp add: zdiv_mono1 Day_def)
  then have "d div Day * Day \<le> t div Day * Day" by (simp add: Day_def)
  moreover have "d div Day * Day = d" using assms(1) by (metis add.right_neutral div_mult_mod_eq)
  moreover have "t div Day * Day = Truncate24h t" by (simp add: Truncate24h_def minus_mod_eq_div_mult)
  ultimately show ?thesis by simp
qed

lemma Truncate24h_le_midnight:
  assumes "d mod Day = 0" "t < d + Day"
  shows "Truncate24h t \<le> d"
proof -
  have "t div Day < (d + Day) div Day" 
  proof -
    have "(d + Day) mod Day = 0" using assms(1) by simp
    then have "(d + Day) div Day * Day = d + Day"
      by (metis add.right_neutral div_mult_mod_eq)
    have "t div Day * Day \<le> t" by (simp add: Day_def)
    with assms(2) \<open>(d + Day) div Day * Day = d + Day\<close> have "t div Day * Day < (d + Day) div Day * Day" by simp
    then show ?thesis by (simp add: Day_def)
  qed
  also have "(d + Day) div Day = d div Day + 1" by (simp add: Day_def)
  finally have "t div Day \<le> d div Day" by simp
  then have "t div Day * Day \<le> d div Day * Day" by (simp add: Day_def)
  moreover have "d div Day * Day = d" using assms(1) by (metis add.right_neutral div_mult_mod_eq)
  moreover have "t div Day * Day = Truncate24h t" by (simp add: Truncate24h_def minus_mod_eq_div_mult)
  ultimately show ?thesis by simp
qed

section \<open>The tiling loop\<close>

declare tiles.simps [simp del]

lemma tile_loop_positive:
  "0 < L \<Longrightarrow> tile_loop L e f t a s0 c = Some (c @ tiles L e f t a s0)"
proof (induction L e f t a s0 arbitrary: c rule: tiles.induct)
  case (1 L e f t a s0)
  show ?case
  proof (cases "s0 + L \<le> e")
    case True
    then show ?thesis
      using "1.prems" "1.IH"[OF _ "1.prems"]
      by (subst tile_loop.simps, subst tiles.simps) auto
  next
    case False
    then show ?thesis
      by (subst tile_loop.simps, subst tiles.simps) simp
  qed
qed

lemma tile_loop_nonpositive_aux:
  assumes "tile_loop L e f t a s0 c = Some y"
  shows "\<not> (L \<le> 0 \<and> s0 + L \<le> e)"
proof (rule tile_loop.raw_induct
    [where P = "\<lambda>L e f t a s0 c y. \<not> (L \<le> 0 \<and> s0 + L \<le> e)", OF _ assms])
  fix tl :: "int \<Rightarrow> int \<Rightarrow> int \<Rightarrow> int \<Rightarrow> bool \<Rightarrow> int \<Rightarrow> Slot list \<Rightarrow> Slot list option"
  fix L e f t :: int and a :: bool and s0 :: int and c y :: "Slot list"
  assume IH: "\<And>L e f t a s0 c y. tl L e f t a s0 c = Some y \<Longrightarrow> \<not> (L \<le> 0 \<and> s0 + L \<le> e)"
  assume body: "(if s0 + L \<le> e
      then if \<not> f < s0 + L \<or> \<not> s0 < t then tl L e f t a (s0 + L) c
           else if \<not> a then tl L e f t a (s0 + L) c
                else tl L e f t a (s0 + L) (c @ [\<lparr>StartUTC = s0, EndUTC = s0 + L\<rparr>])
      else Some c) = Some y"
  show "\<not> (L \<le> 0 \<and> s0 + L \<le> e)"
  proof
    assume p: "L \<le> 0 \<and> s0 + L \<le> e"
    then have step: "L \<le> 0 \<and> s0 + L + L \<le> e" by arith
    from body p obtain c' where "tl L e f t a (s0 + L) c' = Some y"
      by (auto split: if_splits)
    from IH[OF this] step show False by blast
  qed
qed

lemma tile_loop_nonpositive:
  "L \<le> 0 \<Longrightarrow> s0 + L \<le> e \<Longrightarrow> tile_loop L e f t a s0 c = None"
  using tile_loop_nonpositive_aux[of L e f t a s0 c] by (cases "tile_loop L e f t a s0 c") auto

lemma tile_loop_Some:
  assumes "tile_loop L e f t a s0 c = Some c'" and "s0 < e"
  shows "0 < L \<and> c' = c @ tiles L e f t a s0"
proof (cases "0 < L")
  case True
  with assms tile_loop_positive[OF True, of e f t a s0 c] show ?thesis by simp
next
  case False
  then have "L \<le> 0" "s0 + L \<le> e" using assms(2) by simp_all
  from tile_loop_nonpositive[OF this] assms(1) show ?thesis by simp
qed

lemma tiles_mem:
  "sl \<in> set (tiles L e f t a s0) \<longleftrightarrow>
     0 < L \<and> a \<and> (\<exists>k::nat. StartUTC sl = s0 + int k * L \<and> EndUTC sl = StartUTC sl + L
                     \<and> EndUTC sl \<le> e \<and> f < EndUTC sl \<and> StartUTC sl < t)"
proof (induction L e f t a s0 rule: tiles.induct)
  case (1 L e f t a s0)
  show ?case
  proof (cases "0 < L \<and> s0 + L \<le> e")
    case False
    have "\<not> (\<exists>k::nat. StartUTC sl = s0 + int k * L \<and> EndUTC sl = StartUTC sl + L \<and> EndUTC sl \<le> e)" if "0 < L"
    proof
      assume "\<exists>k::nat. StartUTC sl = s0 + int k * L \<and> EndUTC sl = StartUTC sl + L \<and> EndUTC sl \<le> e"
      then obtain k :: nat where k: "s0 + int k * L + L \<le> e" by auto
      have "0 \<le> int k * L" using that by simp
      with k False that show False by simp
    qed
    with False show ?thesis by (subst tiles.simps) auto
  next
    case True
    let ?here = "sl = \<lparr>StartUTC = s0, EndUTC = s0 + L\<rparr>"
    have IH: "sl \<in> set (tiles L e f t a (s0 + L)) \<longleftrightarrow>
       0 < L \<and> a \<and> (\<exists>k::nat. StartUTC sl = s0 + L + int k * L \<and> EndUTC sl = StartUTC sl + L
                     \<and> EndUTC sl \<le> e \<and> f < EndUTC sl \<and> StartUTC sl < t)"
      using "1.IH"[OF True] .
    have unfold: "sl \<in> set (tiles L e f t a s0) \<longleftrightarrow>
        (f < s0 + L \<and> s0 < t \<and> a \<and> ?here) \<or> sl \<in> set (tiles L e f t a (s0 + L))"
      using True by (subst tiles.simps) auto
    have here: "?here \<longleftrightarrow> StartUTC sl = s0 \<and> EndUTC sl = s0 + L"
      by (cases sl) auto
    show ?thesis
    proof
      assume "sl \<in> set (tiles L e f t a s0)"
      then consider (h) "f < s0 + L" "s0 < t" "a" "StartUTC sl = s0" "EndUTC sl = s0 + L"
        | (r) "sl \<in> set (tiles L e f t a (s0 + L))"
        using unfold here by blast
      then show "0 < L \<and> a \<and> (\<exists>k::nat. StartUTC sl = s0 + int k * L \<and> EndUTC sl = StartUTC sl + L
                     \<and> EndUTC sl \<le> e \<and> f < EndUTC sl \<and> StartUTC sl < t)"
      proof cases
        case h
        with True show ?thesis by (intro conjI exI[of _ 0]) simp_all
      next
        case r
        with IH obtain k :: nat where k: "StartUTC sl = s0 + L + int k * L" "EndUTC sl = StartUTC sl + L"
           "EndUTC sl \<le> e" "f < EndUTC sl" "StartUTC sl < t" and a: "a" by blast
        have "StartUTC sl = s0 + int (Suc k) * L" using k(1) by (simp add: algebra_simps)
        with k a True show ?thesis by blast
      qed
    next
      assume rhs: "0 < L \<and> a \<and> (\<exists>k::nat. StartUTC sl = s0 + int k * L \<and> EndUTC sl = StartUTC sl + L
                     \<and> EndUTC sl \<le> e \<and> f < EndUTC sl \<and> StartUTC sl < t)"
      then obtain k :: nat where k: "StartUTC sl = s0 + int k * L" "EndUTC sl = StartUTC sl + L"
           "EndUTC sl \<le> e" "f < EndUTC sl" "StartUTC sl < t" and a: "a" by blast
      show "sl \<in> set (tiles L e f t a s0)"
      proof (cases k)
        case 0
        with k a have "f < s0 + L \<and> s0 < t \<and> a \<and> ?here" using here by simp
        then show ?thesis using unfold by blast
      next
        case (Suc j)
        then have "StartUTC sl = s0 + L + int j * L" using k(1) by (simp add: algebra_simps)
        with k a True IH have "sl \<in> set (tiles L e f t a (s0 + L))" by blast
        then show ?thesis using unfold by blast
      qed
    qed
  qed
qed

section \<open>The rule loop and the day loop\<close>

declare days_loop.simps [simp del]

lemma Date_at_less:
  "tod_After e s \<Longrightarrow> Date_at day s < Date_at day e"
  by (simp add: Date_at_def tod_After_def)

lemma rules_loop_Inr:
  "rules_loop day f t rs c = Some (Inr c') \<Longrightarrow> c' = c @ concat (map (rule_tiles day f t) rs)"
proof (induction rs arbitrary: c)
  case Nil
  then show ?case by simp
next
  case (Cons r rs)
  show ?case
  proof (cases "Weekday day \<noteq> DayOfWeek r")
    case True
    with Cons.prems have "rules_loop day f t rs c = Some (Inr c')" by simp
    from Cons.IH[OF this] True show ?thesis by (simp add: rule_tiles_def)
  next
    case False
    with Cons.prems obtain s e c1 where
      s: "parseHHMM (StartTime r) = Inr s" and e: "parseHHMM (EndTime r) = Inr e"
      and after: "tod_After e s"
      and tl: "tile_loop (minutes_duration (SlotLengthMins r)) (Date_at day e) f t (Available r)
                 (Date_at day s) c = Some c1"
      and rest: "rules_loop day f t rs c1 = Some (Inr c')"
      by (auto split: sum.splits if_splits option.splits)
    from tile_loop_Some[OF tl Date_at_less[OF after]]
    have c1: "c1 = c @ tiles (minutes_duration (SlotLengthMins r)) (Date_at day e) f t (Available r)
                 (Date_at day s)" by simp
    have rt: "rule_tiles day f t r = tiles (minutes_duration (SlotLengthMins r)) (Date_at day e) f t
                 (Available r) (Date_at day s)"
      using False s e after by (simp add: rule_tiles_def)
    from Cons.IH[OF rest] c1 rt show ?thesis by simp
  qed
qed

lemma days_loop_mem:
  "days_loop day endDate f t rs c = Some (Inr c') \<Longrightarrow>
     sl \<in> set c' \<longleftrightarrow>
       sl \<in> set c \<or> (\<exists>k::nat. day + int k * Day \<le> endDate
                          \<and> (\<exists>r\<in>set rs. sl \<in> set (rule_tiles (day + int k * Day) f t r)))"
proof (induction day endDate f t rs c rule: days_loop.induct)
  case (1 day endDate f t rs c)
  show ?case
  proof (cases "day \<le> endDate")
    case False
    then have "\<not> day + int k * Day \<le> endDate" for k :: nat
      by (smt (verit) Day_def mult_nonneg_nonneg of_nat_0_le_iff)
    with False "1.prems" show ?thesis by (subst (asm) days_loop.simps) auto
  next
    case True
    with "1.prems" obtain c1 where
      rl: "rules_loop day f t rs c = Some (Inr c1)"
      and rest: "days_loop (day + 24 * Hour) endDate f t rs c1 = Some (Inr c')"
      by (subst (asm) days_loop.simps) (auto split: option.splits sum.splits)
    have c1: "set c1 = set c \<union> (\<Union>r\<in>set rs. set (rule_tiles day f t r))"
      using rules_loop_Inr[OF rl] by simp
    have IH: "sl \<in> set c' \<longleftrightarrow>
       sl \<in> set c1 \<or> (\<exists>k::nat. day + Day + int k * Day \<le> endDate
                          \<and> (\<exists>r\<in>set rs. sl \<in> set (rule_tiles (day + Day + int k * Day) f t r)))"
      using "1.IH"[OF True rl _ rest] by (simp add: Day_eq)
    have shift: "day + Day + int k * Day = day + int (Suc k) * Day" for k
      by (simp add: algebra_simps)
    show ?thesis
    proof
      assume "sl \<in> set c'"
      with IH c1 consider "sl \<in> set c" | "\<exists>r\<in>set rs. sl \<in> set (rule_tiles day f t r)"
        | k :: nat where "day + Day + int k * Day \<le> endDate"
            "\<exists>r\<in>set rs. sl \<in> set (rule_tiles (day + Day + int k * Day) f t r)"
        by auto
      then show "sl \<in> set c \<or> (\<exists>k::nat. day + int k * Day \<le> endDate
                          \<and> (\<exists>r\<in>set rs. sl \<in> set (rule_tiles (day + int k * Day) f t r)))"
      proof cases
        case 1 then show ?thesis by simp
      next
        case 2
        with True have "day + int 0 * Day \<le> endDate
             \<and> (\<exists>r\<in>set rs. sl \<in> set (rule_tiles (day + int 0 * Day) f t r))" by simp
        then show ?thesis by blast
      next
        case 3
        then have "day + int (Suc k) * Day \<le> endDate
             \<and> (\<exists>r\<in>set rs. sl \<in> set (rule_tiles (day + int (Suc k) * Day) f t r))"
          unfolding shift by simp
        then show ?thesis by blast
      qed
    next
      assume "sl \<in> set c \<or> (\<exists>k::nat. day + int k * Day \<le> endDate
                          \<and> (\<exists>r\<in>set rs. sl \<in> set (rule_tiles (day + int k * Day) f t r)))"
      then consider "sl \<in> set c"
        | k :: nat where "day + int k * Day \<le> endDate"
            "\<exists>r\<in>set rs. sl \<in> set (rule_tiles (day + int k * Day) f t r)"
        by blast
      then show "sl \<in> set c'"
      proof cases
        case 1 with IH c1 show ?thesis by simp
      next
        case 2
        show ?thesis
        proof (cases k)
          case 0
          with 2 have "\<exists>r\<in>set rs. sl \<in> set (rule_tiles day f t r)" by simp
          with IH c1 show ?thesis by blast
        next
          case (Suc j)
          with 2 have "day + Day + int j * Day \<le> endDate
             \<and> (\<exists>r\<in>set rs. sl \<in> set (rule_tiles (day + Day + int j * Day) f t r))"
            unfolding shift by simp
          with IH show ?thesis by blast
        qed
      qed
    qed
  qed
qed

section \<open>What the derivation returns\<close>

lemma rule_tiles_mem:
  "sl \<in> set (rule_tiles day f t r) \<longleftrightarrow>
     Weekday day = DayOfWeek r \<and> Available r \<and> 0 < minutes_duration (SlotLengthMins r)
     \<and> (\<exists>s e. parseHHMM (StartTime r) = Inr s \<and> parseHHMM (EndTime r) = Inr e
           \<and> tod_After e s
           \<and> (\<exists>k::nat. StartUTC sl = Date_at day s + int k * minutes_duration (SlotLengthMins r)
                 \<and> EndUTC sl = StartUTC sl + minutes_duration (SlotLengthMins r)
                 \<and> EndUTC sl \<le> Date_at day e \<and> f < EndUTC sl \<and> StartUTC sl < t))"
  by (cases "parseHHMM (StartTime r)"; cases "parseHHMM (EndTime r)")
     (auto simp: rule_tiles_def tiles_mem)

lemma ListAvailabilityRules_set:
  "ListAvailabilityRules st u = Inr rs \<Longrightarrow> set rs = {r \<in> set (rules st). UserID r = u}"
  by (auto simp: ListAvailabilityRules_def split: if_splits)

lemma ListBookingsInRange_set:
  "ListBookingsInRange st u lo hi = Inr bs \<Longrightarrow>
     set bs = {b \<in> set (bookings st). BookingUserID b = u \<and> lo \<le> StartAtUTC b
                 \<and> StartAtUTC b < hi \<and> Status b = ''confirmed''}"
  by (auto simp: ListBookingsInRange_def split: if_splits)

lemma GenerateAvailableSlots_mem:
  assumes "GenerateAvailableSlots st u f t = Some (Inr slots)"
  shows "sl \<in> set slots \<longleftrightarrow>
     (\<exists>k::nat. Truncate24h f + int k * Day \<le> Truncate24h t
         \<and> (\<exists>r\<in>set (rules st). UserID r = u
               \<and> sl \<in> set (rule_tiles (Truncate24h f + int k * Day) f t r)))
     \<and> (\<forall>b\<in>set (bookings st).
           BookingUserID b = u \<and> f - Hour \<le> StartAtUTC b \<and> StartAtUTC b < t + Hour
             \<and> Status b = ''confirmed'' \<longrightarrow> Unix (StartAtUTC b) \<noteq> Unix (StartUTC sl))"
proof -
  from assms obtain rs where rs: "ListAvailabilityRules st u = Inr rs"
    by (auto simp: GenerateAvailableSlots_def split: sum.splits)
  note rset = ListAvailabilityRules_set[OF rs]
  show ?thesis
  proof (cases "rs = []")
    case True
    with assms rs have "slots = []" by (simp add: GenerateAvailableSlots_def)
    moreover from True rset have "\<forall>r\<in>set (rules st). UserID r \<noteq> u" by auto
    ultimately show ?thesis by auto
  next
    case False
    with assms rs obtain cand bs where
      dl: "days_loop (Truncate24h f) (Truncate24h t) f t rs [] = Some (Inr cand)"
      and bs: "ListBookingsInRange st u (f - Hour) (t + Hour) = Inr bs"
      and sl: "slots = filter (\<lambda>sl. Unix (StartUTC sl) \<notin> set (map (\<lambda>b. Unix (StartAtUTC b)) bs)) cand"
      by (auto simp: GenerateAvailableSlots_def Let_def Day_eq split: sum.splits option.splits)
    note bset = ListBookingsInRange_set[OF bs]
    have "sl \<in> set slots \<longleftrightarrow> sl \<in> set cand \<and> (\<forall>b\<in>set bs. Unix (StartAtUTC b) \<noteq> Unix (StartUTC sl))"
      unfolding sl by (auto simp: image_iff)
    also have "sl \<in> set cand \<longleftrightarrow> (\<exists>k::nat. Truncate24h f + int k * Day \<le> Truncate24h t
         \<and> (\<exists>r\<in>set rs. sl \<in> set (rule_tiles (Truncate24h f + int k * Day) f t r)))"
      using days_loop_mem[OF dl, of sl] by simp
    finally show ?thesis unfolding rset bset by auto
  qed
qed

lemma minutes_duration_exact:
  "\<bar>n\<bar> \<le> 153722867 \<Longrightarrow> minutes_duration n = n * Minute"
  by (simp add: minutes_duration_def int64_wrap_def Minute_def)

lemma Truncate24h_eq:
  assumes "d mod Day = 0" "d \<le> x" "x < d + Day"
  shows "Truncate24h x = d"
  using midnight_le_Truncate24h[OF assms(1,2)] Truncate24h_le_midnight[OF assms(1,3)] by simp

lemma slot_provenance:
  assumes "GenerateAvailableSlots st u f t = Some (Inr slots)" and "sl \<in> set slots"
  obtains r day s e and k :: nat where
    "r \<in> set (rules st)" "UserID r = u" "Available r"
    "0 < minutes_duration (SlotLengthMins r)"
    "day mod Day = 0" "Weekday day = DayOfWeek r"
    "parseHHMM (StartTime r) = Inr s" "parseHHMM (EndTime r) = Inr e"
    "StartUTC sl = day + tod_offset s + int k * minutes_duration (SlotLengthMins r)"
    "EndUTC sl = StartUTC sl + minutes_duration (SlotLengthMins r)"
    "EndUTC sl \<le> day + tod_offset e"
    "f < EndUTC sl" "StartUTC sl < t"
proof -
  from GenerateAvailableSlots_mem[OF assms(1), of sl] assms(2)
  obtain j :: nat and r where r: "r \<in> set (rules st)" "UserID r = u"
    and m: "sl \<in> set (rule_tiles (Truncate24h f + int j * Day) f t r)"
    by blast
  define day where "day = Truncate24h f + int j * Day"
  have mid: "day mod Day = 0" by (simp add: day_def Truncate24h_mod)
  then have tr: "Truncate24h day = day" by (rule Truncate24h_midnight)
  from m[folded day_def] obtain s e and k :: nat where *:
    "Weekday day = DayOfWeek r" "Available r" "0 < minutes_duration (SlotLengthMins r)"
    "parseHHMM (StartTime r) = Inr s" "parseHHMM (EndTime r) = Inr e"
    "StartUTC sl = Date_at day s + int k * minutes_duration (SlotLengthMins r)"
    "EndUTC sl = StartUTC sl + minutes_duration (SlotLengthMins r)"
    "EndUTC sl \<le> Date_at day e" "f < EndUTC sl" "StartUTC sl < t"
    unfolding rule_tiles_mem by blast
  show ?thesis
    by (rule that[of r day s e k]) (use r mid * in \<open>simp_all add: Date_at_def tr\<close>)
qed

lemma rules_loop_returns:
  "\<forall>r\<in>set rs. 0 < minutes_duration (SlotLengthMins r) \<Longrightarrow>
     \<exists>res. rules_loop day f t rs c = Some res"
proof (induction rs arbitrary: c)
  case Nil
  then show ?case by simp
next
  case (Cons r rs)
  then have pos: "0 < minutes_duration (SlotLengthMins r)"
    and rest: "\<And>c. \<exists>res. rules_loop day f t rs c = Some res" by simp_all
  show ?case
    using rest by (simp add: tile_loop_positive[OF pos] split: sum.splits)
qed

lemma days_loop_returns:
  "\<forall>r\<in>set rs. 0 < minutes_duration (SlotLengthMins r) \<Longrightarrow>
     \<exists>res. days_loop day endDate f t rs c = Some res"
proof (induction day endDate f t rs c rule: days_loop.induct)
  case (1 day endDate f t rs c)
  show ?case
  proof (cases "day \<le> endDate")
    case False
    then show ?thesis by (subst days_loop.simps) simp
  next
    case True
    from rules_loop_returns[OF "1.prems"] obtain res where
      res: "rules_loop day f t rs c = Some res" by blast
    show ?thesis
    proof (cases res)
      case (Inl e)
      with True res show ?thesis by (subst days_loop.simps) simp
    next
      case (Inr c1)
      from "1.IH"[OF True res[unfolded Inr] refl "1.prems"] True res Inr
      show ?thesis by (subst days_loop.simps) simp
    qed
  qed
qed



section \<open>Creating a booking\<close>

lemma CheckExistingBookingAtStart_found:
  assumes "\<not> failing st CallCheckExistingBookingAtStart"
    and "\<exists>b\<in>set (bookings st). BookingUserID b = u \<and> Status b = ''confirmed'' \<and> StartAtUTC b = start"
  shows "\<exists>i. CheckExistingBookingAtStart st u start = Inr (Some i)"
proof -
  from assms(2) have "filter (\<lambda>b. BookingUserID b = u \<and> Status b = ''confirmed''
      \<and> StartAtUTC b = start) (bookings st) \<noteq> []"
    by (auto simp: filter_empty_conv)
  with assms(1) show ?thesis
    by (auto simp: CheckExistingBookingAtStart_def split: list.splits)
qed

lemma CheckExistingBookingAtStart_none:
  assumes "\<not> failing st CallCheckExistingBookingAtStart"
    and "\<not> (\<exists>b\<in>set (bookings st). BookingUserID b = u \<and> Status b = ''confirmed'' \<and> StartAtUTC b = start)"
  shows "CheckExistingBookingAtStart st u start = Inr None"
proof -
  from assms(2) have "filter (\<lambda>b. BookingUserID b = u \<and> Status b = ''confirmed''
      \<and> StartAtUTC b = start) (bookings st) = []"
    by (simp add: filter_empty_conv)
  with assms(1) show ?thesis
    by (simp add: CheckExistingBookingAtStart_def)
qed


lemma CreateBooking_success:
  assumes "CreateBooking st now u req = Some (Inr b, st')"
  shows "CheckExistingBookingAtStart st u (ReqStart req) = Inr None
    \<and> (\<exists>slots. GenerateAvailableSlots st u (ReqStart req - Second) (ReqEnd req + Second) = Some (Inr slots)
          \<and> (\<exists>sl\<in>set slots. StartUTC sl = ReqStart req \<and> EndUTC sl = ReqEnd req))
    \<and> b = \<lparr>BookingID = next_id st, BookingUserID = u, CandidateEmail = ReqCandidateEmail req,
            StartAtUTC = ReqStart req, EndAtUTC = ReqEnd req, Status = ''confirmed'',
            Source = ReqSource req, Type = ReqType req, Description = ReqDescription req,
            BookingTitle = ReqTitle req, BookingCreatedAt = now\<rparr>
    \<and> st' = st\<lparr>bookings := bookings st @ [b], next_id := Suc (next_id st)\<rparr>"
  using assms
  by (auto simp: CreateBooking_def Let_def InsertBooking_def Day_eq list_ex_iff
           split: if_splits sum.splits option.splits prod.splits)

text \<open>
  Identical requests run one after another: once one has succeeded, every later one
  fails with \<open>SlotAlreadyBooked\<close>.
\<close>

lemma repeated_request_conflicts:
  assumes "CreateBooking st now u req = Some (Inr b, st')" and "healthy st"
  shows "CreateBooking st' now' u req = Some (Inl SlotAlreadyBooked, st')"
proof -
  from CreateBooking_success[OF assms(1)] have
    b: "BookingUserID b = u" "Status b = ''confirmed''" "StartAtUTC b = ReqStart req"
    and st': "st' = st\<lparr>bookings := bookings st @ [b], next_id := Suc (next_id st)\<rparr>"
    by auto
  from assms(2) st' have h: "can_begin st'" "\<not> failing st' CallBegin"
    "\<not> failing st' CallCheckExistingBookingAtStart"
    by (simp_all add: healthy_def)
  from st' have "b \<in> set (bookings st')" by simp
  with b have "\<exists>b\<in>set (bookings st'). BookingUserID b = u \<and> Status b = ''confirmed''
      \<and> StartAtUTC b = ReqStart req" by blast
  from CheckExistingBookingAtStart_found[OF h(3) this] obtain i where
    "CheckExistingBookingAtStart st' u (ReqStart req) = Inr (Some i)" by blast
  with h show ?thesis by (simp add: CreateBooking_def)
qed

lemma CreateBooking_commits:
  assumes "healthy st"
    and "\<not> (\<exists>b\<in>set (bookings st). BookingUserID b = u \<and> Status b = ''confirmed''
              \<and> StartAtUTC b = ReqStart req)"
    and "GenerateAvailableSlots st u (ReqStart req - Second) (ReqEnd req + Second)
          = Some (Inr slots)"
    and "\<exists>sl\<in>set slots. StartUTC sl = ReqStart req \<and> EndUTC sl = ReqEnd req"
  shows "\<exists>b st'. CreateBooking st now u req = Some (Inr b, st')
           \<and> StartAtUTC b = ReqStart req \<and> EndAtUTC b = ReqEnd req"
proof -
  from assms(1) have h: "can_begin st" "\<not> failing st CallBegin"
    "\<not> failing st CallCheckExistingBookingAtStart" "\<not> failing st CallInsertBooking"
    "\<not> failing st CallCommit"
    by (simp_all add: healthy_def)
  have c: "CheckExistingBookingAtStart st u (ReqStart req) = Inr None"
    by (rule CheckExistingBookingAtStart_none[OF h(3) assms(2)])
  from assms(4) have n: "list_ex (\<lambda>s. StartUTC s = ReqStart req \<and> EndUTC s = ReqEnd req) slots"
    by (simp add: list_ex_iff)
  from h c assms(3) n show ?thesis
    by (simp add: CreateBooking_def InsertBooking_def Let_def Day_eq)
qed


lemma Minute_Second: "Minute = 60 * Second" and Day_Minute: "Day = 1440 * Minute"
  by (simp_all add: Minute_def Second_def Day_def)

lemma whole_minute_Unix:
  assumes "x mod Minute = 0" "y mod Minute = 0"
  shows "(Unix x = Unix y) = (x = y)"
proof
  assume u: "Unix x = Unix y"
  have "Second dvd x" "Second dvd y"
    using assms unfolding Minute_Second by (auto simp: mod_eq_0_iff_dvd dest: dvd_mult_right)
  then have "x = x div Second * Second" "y = y div Second * Second"
    by simp_all
  with u show "x = y" by (simp add: Unix_def)
qed simp

lemma Day_multiple_of_Minute: "d mod Day = 0 \<Longrightarrow> d mod Minute = 0"
  unfolding Day_Minute by (auto simp: mod_eq_0_iff_dvd dest: dvd_mult_right)

lemma rule_tile_whole_minute:
  assumes "sl \<in> set (rule_tiles day f t r)" and "\<bar>SlotLengthMins r\<bar> \<le> 153722867"
  shows "StartUTC sl mod Minute = 0 \<and> EndUTC sl mod Minute = 0"
proof -
  from assms(1) obtain s e and k :: nat where
    p: "parseHHMM (StartTime r) = Inr s"
    and sl: "StartUTC sl = Date_at day s + int k * minutes_duration (SlotLengthMins r)"
      "EndUTC sl = StartUTC sl + minutes_duration (SlotLengthMins r)"
    unfolding rule_tiles_mem by blast
  note ex = minutes_duration_exact[OF assms(2)]
  have "tod_offset s mod Minute = 0"
    by (rule tod_offset_range(3)[OF parseHHMM_bounds[OF p, THEN conjunct1]
          parseHHMM_bounds[OF p, THEN conjunct2]])
  moreover have "Truncate24h day mod Minute = 0"
    by (rule Day_multiple_of_Minute[OF Truncate24h_mod])
  ultimately have "Date_at day s mod Minute = 0"
    by (simp add: Date_at_def mod_eq_0_iff_dvd)
  then have 1: "StartUTC sl mod Minute = 0"
    unfolding sl ex by (simp add: mod_eq_0_iff_dvd)
  then have "EndUTC sl mod Minute = 0"
    unfolding sl(2) ex by (simp add: mod_eq_0_iff_dvd)
  with 1 show ?thesis ..
qed

section \<open>Writing rules\<close>

lemma validateAvailabilityRule_times:
  "StartTime r' = StartTime r \<Longrightarrow> EndTime r' = EndTime r \<Longrightarrow>
     validateAvailabilityRule r' = validateAvailabilityRule r"
  by (simp add: validateAvailabilityRule_def split: option.splits)

text \<open>The validation at write time does not look at the slot length.\<close>

lemma validateAvailabilityRule_ignores_slot_length:
  "validateAvailabilityRule (r\<lparr>SlotLengthMins := n\<rparr>) = validateAvailabilityRule r"
  by (rule validateAvailabilityRule_times) simp_all

lemma filter_map_update_rule:
  fixes g :: "AvailabilityRule \<Rightarrow> AvailabilityRule"
  assumes "\<And>r. ID (g r) = ID r \<and> UserID (g r) = UserID r"
  shows "filter (\<lambda>r. ID r = i \<and> UserID r = u)
           (map (\<lambda>r. if ID r = i \<and> UserID r = u then g r else r) rs)
         = map g (filter (\<lambda>r. ID r = i \<and> UserID r = u) rs)"
  using assms by (induction rs) auto

lemma SetAvailability_loop_stops:
  assumes "\<not> failing st CallInsertAvailabilityRule"
    and "\<forall>r\<in>set pre. validateAvailabilityRule r = None"
    and "validateAvailabilityRule bad = Some e"
  shows "SetAvailability_loop st now u (pre @ bad # post) saved =
    (Inl e,
     st\<lparr>rules := rules st @
            map (\<lambda>(i, r). r\<lparr>ID := i, UserID := u, CreatedAt := now, UpdatedAt := now\<rparr>)
                (enumerate (next_id st) pre),
        next_id := next_id st + length pre\<rparr>)"
  using assms(1,2)
proof (induction pre arbitrary: st saved)
  case Nil
  have "validateAvailabilityRule (bad\<lparr>UserID := u, CreatedAt := now, UpdatedAt := now\<rparr>)
      = validateAvailabilityRule bad"
    by (rule validateAvailabilityRule_times) simp_all
  with assms(3) show ?case by simp
next
  case (Cons p ps)
  define p' where "p' = p\<lparr>UserID := u, CreatedAt := now, UpdatedAt := now\<rparr>"
  define st1 where "st1 = st\<lparr>rules := rules st @ [p'\<lparr>ID := next_id st, CreatedAt := now, UpdatedAt := now\<rparr>],
                      next_id := Suc (next_id st)\<rparr>"
  have "validateAvailabilityRule p' = validateAvailabilityRule p"
    by (rule validateAvailabilityRule_times) (simp_all add: p'_def)
  with Cons.prems(2) have v: "validateAvailabilityRule p' = None" by simp
  have ins: "InsertAvailabilityRule st now p' = Inr (p'\<lparr>ID := next_id st\<rparr>, st1)"
    using Cons.prems(1) by (simp add: InsertAvailabilityRule_def Let_def st1_def)
  have f1: "\<not> failing st1 CallInsertAvailabilityRule"
    using Cons.prems(1) by (simp add: st1_def)
  have step: "SetAvailability_loop st now u ((p # ps) @ bad # post) saved
      = SetAvailability_loop st1 now u (ps @ bad # post) (saved @ [p'\<lparr>ID := next_id st\<rparr>])"
    using v ins by (simp add: p'_def[symmetric] Let_def)
  from Cons.prems(2) have "\<forall>r\<in>set ps. validateAvailabilityRule r = None" by simp
  from Cons.IH[OF f1 this] show ?case
    unfolding step by (simp add: st1_def p'_def)
qed

section \<open>Cancellation\<close>

lemma GetBookingStatus_absent:
  "\<not> failing st CallGetBookingStatus \<Longrightarrow> \<forall>b\<in>set (bookings st). BookingID b \<noteq> i
     \<Longrightarrow> GetBookingStatus st i = Inl ErrNoRows"
  by (simp add: GetBookingStatus_def filter_empty_conv split: list.splits)

lemma filter_map_cancel:
  "filter (\<lambda>b. BookingID b = i)
      (map (\<lambda>b. if BookingID b = i \<and> Status b \<noteq> ''cancelled''
                then b\<lparr>Status := ''cancelled''\<rparr> else b) bs)
   = map (\<lambda>b. b\<lparr>Status := ''cancelled''\<rparr>) (filter (\<lambda>b. BookingID b = i) bs)"
  by (induction bs) auto

lemma GetBookingStatus_after_cancel:
  assumes "GetBookingStatus st i = Inr s"
    and "BookingRepo_CancelBooking st i = Inr (n, st')"
  shows "GetBookingStatus st' i = Inr ''cancelled''"
  using assms
  by (auto simp: GetBookingStatus_def BookingRepo_CancelBooking_def Let_def filter_map_cancel
           split: if_splits list.splits)

lemma cancel_rows_positive:
  assumes "GetBookingStatus st i = Inr s" and "s \<noteq> ''cancelled''"
    and "BookingRepo_CancelBooking st i = Inr (n, st')"
  shows "0 < n"
proof -
  from assms(1) obtain b bs where f: "filter (\<lambda>b. BookingID b = i) (bookings st) = b # bs"
    and s: "Status b = s"
    by (auto simp: GetBookingStatus_def split: if_splits list.splits)
  have "b \<in> set (filter (\<lambda>b. BookingID b = i) (bookings st))" unfolding f by simp
  then have bi: "b \<in> set (bookings st)" "BookingID b = i" by simp_all
  have "b \<in> set (filter (\<lambda>b. BookingID b = i \<and> Status b \<noteq> ''cancelled'') (bookings st))"
    using bi s assms(2) by simp
  then have "0 < length (filter (\<lambda>b. BookingID b = i \<and> Status b \<noteq> ''cancelled'') (bookings st))"
    by (rule length_pos_if_in_set)
  moreover have "n = length (filter (\<lambda>b. BookingID b = i \<and> Status b \<noteq> ''cancelled'') (bookings st))"
    using assms(3) by (simp add: BookingRepo_CancelBooking_def Let_def split: if_splits)
  ultimately show ?thesis by simp
qed

text \<open>
  Claim C6. \<^verbatim>\<open>CancelBooking(id)\<close> reports \<open>BookingNotFound\<close> when no booking has the
  id, and \<open>AlreadyCancelled\<close> when the status read is \<^verbatim>\<open>cancelled\<close>, whatever other
  clients do meanwhile. Otherwise the plain call sets the status of the booking to
  \<^verbatim>\<open>cancelled\<close>, touches no other row and reports success, and a second call on the
  resulting store reports \<open>AlreadyCancelled\<close>. When the conditional update affects no
  row, because another client changed the store between the status read and the update,
  the call reports \<open>BookingNotFound\<close>.
\<close>

theorem CancelBooking_outcomes:
  "(\<not> failing st CallGetBookingStatus \<and> (\<forall>b\<in>set (bookings st). BookingID b \<noteq> i)
      \<longrightarrow> CancelBooking_with other st i = (Some BookingNotFound, st))
   \<and> (GetBookingStatus st i = Inr ''cancelled''
      \<longrightarrow> CancelBooking_with other st i = (Some AlreadyCancelled, st))
   \<and> (GetBookingStatus st i = Inr s \<and> s \<noteq> ''cancelled'' \<and> \<not> failing st CallCancelBooking
      \<longrightarrow> (\<exists>st'. CancelBooking st i = (None, st')
             \<and> bookings st' =
                 map (\<lambda>b. if BookingID b = i \<and> Status b \<noteq> ''cancelled''
                           then b\<lparr>Status := ''cancelled''\<rparr> else b) (bookings st)
             \<and> CancelBooking st' i = (Some AlreadyCancelled, st')))
   \<and> (GetBookingStatus st i = Inr s \<and> s \<noteq> ''cancelled''
        \<and> BookingRepo_CancelBooking (other st) i = Inr (0, st'')
      \<longrightarrow> CancelBooking_with other st i = (Some BookingNotFound, st''))"
proof (intro conjI impI)
  assume "\<not> failing st CallGetBookingStatus \<and> (\<forall>b\<in>set (bookings st). BookingID b \<noteq> i)"
  then show "CancelBooking_with other st i = (Some BookingNotFound, st)"
    by (simp add: CancelBooking_with_def GetBookingStatus_absent)
next
  assume "GetBookingStatus st i = Inr ''cancelled''"
  then show "CancelBooking_with other st i = (Some AlreadyCancelled, st)"
    by (simp add: CancelBooking_with_def)
next
  assume "GetBookingStatus st i = Inr s \<and> s \<noteq> ''cancelled'' \<and> \<not> failing st CallCancelBooking"
  then have a1: "GetBookingStatus st i = Inr s" and a2: "s \<noteq> ''cancelled''"
    and a3: "\<not> failing st CallCancelBooking" by simp_all
  define st' where "st' = st\<lparr>bookings :=
      map (\<lambda>b. if BookingID b = i \<and> Status b \<noteq> ''cancelled''
                then b\<lparr>Status := ''cancelled''\<rparr> else b) (bookings st)\<rparr>"
  define n where
    "n = length (filter (\<lambda>b. BookingID b = i \<and> Status b \<noteq> ''cancelled'') (bookings st))"
  have r: "BookingRepo_CancelBooking st i = Inr (n, st')"
    using a3 by (simp add: BookingRepo_CancelBooking_def Let_def st'_def n_def)
  have n: "0 < n" by (rule cancel_rows_positive[OF a1 a2 r])
  have 1: "CancelBooking st i = (None, st')"
    using a1 a2 r n by (simp add: CancelBooking_def CancelBooking_with_def)
  have g: "GetBookingStatus st' i = Inr ''cancelled''"
    by (rule GetBookingStatus_after_cancel[OF a1 r])
  have 2: "CancelBooking st' i = (Some AlreadyCancelled, st')"
    using g by (simp add: CancelBooking_def CancelBooking_with_def)
  show "\<exists>st'. CancelBooking st i = (None, st')
             \<and> bookings st' =
                 map (\<lambda>b. if BookingID b = i \<and> Status b \<noteq> ''cancelled''
                           then b\<lparr>Status := ''cancelled''\<rparr> else b) (bookings st)
             \<and> CancelBooking st' i = (Some AlreadyCancelled, st')"
    using 1 2 by (intro exI[of _ st']) (simp add: st'_def)
next
  assume "GetBookingStatus st i = Inr s \<and> s \<noteq> ''cancelled''
        \<and> BookingRepo_CancelBooking (other st) i = Inr (0, st'')"
  then show "CancelBooking_with other st i = (Some BookingNotFound, st'')"
    by (simp add: CancelBooking_with_def)
qed

theorem CancelBooking_outcomes_witness:
  "CancelBooking_with (\<lambda>s. s) booked_store 9 = (Some BookingNotFound, booked_store)
   \<and> CancelBooking_with (\<lambda>s. s) cancelled_store 7 = (Some AlreadyCancelled, cancelled_store)
   \<and> fst (CancelBooking booked_store 7) = None
   \<and> fst (CancelBooking (snd (CancelBooking booked_store 7)) 7) = Some AlreadyCancelled
   \<and> CancelBooking_with (\<lambda>s. snd (CancelBooking s 7)) booked_store 7
       = (Some BookingNotFound, cancelled_store)"
proof -
  have absent: "\<not> failing booked_store CallGetBookingStatus
      \<and> (\<forall>b\<in>set (bookings booked_store). BookingID b \<noteq> 9)"
    by (simp add: example_defs)
  have status: "GetBookingStatus booked_store 7 = Inr ''confirmed''"
    by (simp add: GetBookingStatus_def example_defs)
  have already: "GetBookingStatus cancelled_store 7 = Inr ''cancelled''"
    by (simp add: GetBookingStatus_def example_defs)
  have ok: "\<not> failing booked_store CallCancelBooking"
    by (simp add: example_defs)
  have first: "CancelBooking booked_store 7 = (None, cancelled_store)"
    by (simp add: CancelBooking_def CancelBooking_with_def GetBookingStatus_def
        BookingRepo_CancelBooking_def example_defs)
  have lost: "BookingRepo_CancelBooking (snd (CancelBooking booked_store 7)) 7
      = Inr (0, cancelled_store)"
    unfolding first by (simp add: BookingRepo_CancelBooking_def example_defs)
  note T1 = CancelBooking_outcomes[where st = booked_store and i = 9 and other = "\<lambda>s. s"]
  note T2 = CancelBooking_outcomes[where st = booked_store and i = 7 and s = "''confirmed''"
      and other = "\<lambda>s. snd (CancelBooking s 7)" and st'' = cancelled_store]
  note T3 = CancelBooking_outcomes[where st = cancelled_store and i = 7 and other = "\<lambda>s. s"]
  from T1 absent
  have 1: "CancelBooking_with (\<lambda>s. s) booked_store 9 = (Some BookingNotFound, booked_store)"
    by blast
  from T3 already
  have 2: "CancelBooking_with (\<lambda>s. s) cancelled_store 7 = (Some AlreadyCancelled, cancelled_store)"
    by blast
  from T2 status ok obtain st' where 3: "CancelBooking booked_store 7 = (None, st')"
    and 4: "CancelBooking st' 7 = (Some AlreadyCancelled, st')"
    by auto
  from T2 status lost
  have 5: "CancelBooking_with (\<lambda>s. snd (CancelBooking s 7)) booked_store 7
      = (Some BookingNotFound, cancelled_store)"
    by simp
  from 1 2 3 4 5 show ?thesis by simp
qed

section \<open>Derived slots\<close>

text \<open>
  Claim C4, amended. When every rule of the user has a slot length of at most
  153722867 minutes in absolute value (the lengths whose count of nanoseconds fits 64
  bits), every slot that the derivation returns comes from an available rule \<open>r\<close> of the
  user with a positive slot length and from a day whose weekday is the rule's: the slot
  starts on that day at the rule's start time plus a whole number of slot lengths, lasts
  exactly \<open>SlotLengthMins r\<close> minutes, and ends no later than the rule's end time on
  that day.
\<close>

theorem derived_slots_are_rule_tiles:
  assumes "GenerateAvailableSlots st u f t = Some (Inr slots)" and "sl \<in> set slots"
    and "\<forall>r\<in>set (rules st). UserID r = u \<longrightarrow> \<bar>SlotLengthMins r\<bar> \<le> 153722867"
  shows "\<exists>r\<in>set (rules st). \<exists>day s e. \<exists>k::nat.
           UserID r = u \<and> Available r \<and> 0 < SlotLengthMins r
         \<and> day mod Day = 0 \<and> Weekday day = DayOfWeek r \<and> Truncate24h (StartUTC sl) = day
         \<and> parseHHMM (StartTime r) = Inr s \<and> parseHHMM (EndTime r) = Inr e
         \<and> StartUTC sl = day + tod_offset s + int k * (SlotLengthMins r * Minute)
         \<and> EndUTC sl - StartUTC sl = SlotLengthMins r * Minute
         \<and> EndUTC sl \<le> day + tod_offset e"
proof -
  obtain r day s e and k :: nat where
    r: "r \<in> set (rules st)" "UserID r = u" "Available r"
    and L: "0 < minutes_duration (SlotLengthMins r)"
    and day: "day mod Day = 0" "Weekday day = DayOfWeek r"
    and p: "parseHHMM (StartTime r) = Inr s" "parseHHMM (EndTime r) = Inr e"
    and sl: "StartUTC sl = day + tod_offset s + int k * minutes_duration (SlotLengthMins r)"
      "EndUTC sl = StartUTC sl + minutes_duration (SlotLengthMins r)"
      "EndUTC sl \<le> day + tod_offset e"
    by (rule slot_provenance[OF assms(1,2)])
  from assms(3) r have "\<bar>SlotLengthMins r\<bar> \<le> 153722867" by blast
  then have ex: "minutes_duration (SlotLengthMins r) = SlotLengthMins r * Minute"
    by (rule minutes_duration_exact)
  with L have pos: "0 < SlotLengthMins r" by (simp add: Minute_def)
  note sb = tod_offset_range[OF parseHHMM_bounds[OF p(1), THEN conjunct1] parseHHMM_bounds[OF p(1), THEN conjunct2]]
  note eb = tod_offset_range[OF parseHHMM_bounds[OF p(2), THEN conjunct1] parseHHMM_bounds[OF p(2), THEN conjunct2]]
  have "0 \<le> int k * minutes_duration (SlotLengthMins r)" using L by simp
  with sl(1) sb(1) have lo: "day \<le> StartUTC sl" by simp
  have "StartUTC sl < EndUTC sl" using sl(2) L by simp
  with sl(3) eb(2) have hi: "StartUTC sl < day + Day" by simp
  have tr: "Truncate24h (StartUTC sl) = day" by (rule Truncate24h_eq[OF day(1) lo hi])
  from r pos day tr p sl show ?thesis
    unfolding ex by (intro bexI[of _ r] exI[of _ day] exI[of _ s] exI[of _ e] exI[of _ k]) simp_all
qed

theorem derived_slots_are_rule_tiles_witness:
  "\<exists>r\<in>set (rules monday_store). \<exists>day s e. \<exists>k::nat.
       UserID r = ''u1'' \<and> Available r \<and> 0 < SlotLengthMins r
     \<and> day mod Day = 0 \<and> Weekday day = DayOfWeek r
     \<and> Truncate24h (StartUTC \<lparr>StartUTC = 379800000000000, EndUTC = 381600000000000\<rparr>) = day
     \<and> parseHHMM (StartTime r) = Inr s \<and> parseHHMM (EndTime r) = Inr e
     \<and> StartUTC \<lparr>StartUTC = 379800000000000, EndUTC = 381600000000000\<rparr>
         = day + tod_offset s + int k * (SlotLengthMins r * Minute)
     \<and> EndUTC \<lparr>StartUTC = 379800000000000, EndUTC = 381600000000000\<rparr>
         - StartUTC \<lparr>StartUTC = 379800000000000, EndUTC = 381600000000000\<rparr>
         = SlotLengthMins r * Minute
     \<and> EndUTC \<lparr>StartUTC = 379800000000000, EndUTC = 381600000000000\<rparr> \<le> day + tod_offset e"
proof -
  have gen: "GenerateAvailableSlots monday_store ''u1'' (4 * Day) (5 * Day)
      = Some (Inr [\<lparr>StartUTC = 378000000000000, EndUTC = 379800000000000\<rparr>,
                   \<lparr>StartUTC = 379800000000000, EndUTC = 381600000000000\<rparr>])"
    by code_simp
  have mem: "\<lparr>StartUTC = 379800000000000, EndUTC = 381600000000000\<rparr>
      \<in> set [\<lparr>StartUTC = 378000000000000, EndUTC = 379800000000000\<rparr>,
              \<lparr>StartUTC = 379800000000000, EndUTC = 381600000000000\<rparr>]"
    by simp
  have bound: "\<forall>r\<in>set (rules monday_store). UserID r = ''u1'' \<longrightarrow> \<bar>SlotLengthMins r\<bar> \<le> 153722867"
    by (simp add: example_defs)
  show ?thesis by (rule derived_slots_are_rule_tiles[OF gen mem bound])
qed

theorem wrapped_slot_length_counterexample:
  "GenerateAvailableSlots wrapping_store ''u1'' (4 * Day) (5 * Day)
     = Some (Inr [\<lparr>StartUTC = 378000000000000, EndUTC = 379766290448384\<rparr>,
                  \<lparr>StartUTC = 379766290448384, EndUTC = 381532580896768\<rparr>])
   \<and> SlotLengthMins wrapping_rule = 307445764
   \<and> 379766290448384 - 378000000000000 \<noteq> SlotLengthMins wrapping_rule * Minute"
  by code_simp

section \<open>Termination of the derivation\<close>

text \<open>
  Claim C9, amended. When every rule of the user has a slot length between 1 and
  153722867 minutes, the slot duration is positive, so the tiling loop moves its cursor
  forward by a positive duration until the rule's end instant, and the derivation
  returns, with slots or with an error, for every window. The times of the rules need
  not parse: a time that does not parse is an error return.
\<close>

theorem derivation_terminates:
  assumes "\<forall>r\<in>set (rules st). UserID r = u \<longrightarrow> 1 \<le> SlotLengthMins r \<and> SlotLengthMins r \<le> 153722867"
  shows "(\<exists>res. GenerateAvailableSlots st u f t = Some res)
       \<and> (\<forall>r\<in>set (rules st). UserID r = u \<longrightarrow> 0 < minutes_duration (SlotLengthMins r))"
proof -
  have pos: "0 < minutes_duration (SlotLengthMins r)" if "r \<in> set (rules st)" "UserID r = u" for r
  proof -
    from assms that have b: "1 \<le> SlotLengthMins r" "SlotLengthMins r \<le> 153722867" by auto
    then have "minutes_duration (SlotLengthMins r) = SlotLengthMins r * Minute"
      by (intro minutes_duration_exact) simp
    with b show ?thesis by (simp add: Minute_def)
  qed
  have "\<exists>res. GenerateAvailableSlots st u f t = Some res"
  proof (cases "ListAvailabilityRules st u")
    case (Inl e)
    then show ?thesis by (simp add: GenerateAvailableSlots_def)
  next
    case (Inr rs)
    from ListAvailabilityRules_set[OF Inr] pos
    have "\<forall>r\<in>set rs. 0 < minutes_duration (SlotLengthMins r)" by simp
    from days_loop_returns[OF this, of "Truncate24h f" "Truncate24h t" f t "[]"]
    obtain res where "days_loop (Truncate24h f) (Truncate24h t) f t rs [] = Some res" by blast
    with Inr show ?thesis
      by (simp add: GenerateAvailableSlots_def Let_def split: sum.splits)
  qed
  with pos show ?thesis by blast
qed

theorem derivation_terminates_witness:
  "(\<exists>res. GenerateAvailableSlots monday_store ''u1'' (4 * Day) (5 * Day) = Some res)
   \<and> 0 < minutes_duration (SlotLengthMins monday_rule)"
proof -
  have "\<forall>r\<in>set (rules monday_store). UserID r = ''u1'' \<longrightarrow>
          1 \<le> SlotLengthMins r \<and> SlotLengthMins r \<le> 153722867"
    by (simp add: example_defs)
  from derivation_terminates[OF this, of "4 * Day" "5 * Day"] show ?thesis
    by (simp add: example_defs)
qed

theorem negative_wrap_counterexample:
  "SlotLengthMins runaway_rule = 153722868
   \<and> parseHHMM (StartTime runaway_rule) = Inr (9, 0)
   \<and> parseHHMM (EndTime runaway_rule) = Inr (10, 0)
   \<and> rules runaway_store = [runaway_rule]
   \<and> minutes_duration (SlotLengthMins runaway_rule) = - 9223371993709551616
   \<and> GenerateAvailableSlots runaway_store ''u1'' (4 * Day) (5 * Day) = None"
proof -
  have facts: "SlotLengthMins runaway_rule = 153722868"
    "parseHHMM (StartTime runaway_rule) = Inr (9, 0)"
    "parseHHMM (EndTime runaway_rule) = Inr (10, 0)"
    "rules runaway_store = [runaway_rule]"
    "minutes_duration (SlotLengthMins runaway_rule) = - 9223371993709551616"
    by code_simp+
  have list: "ListAvailabilityRules runaway_store ''u1'' = Inr [runaway_rule]" by code_simp
  have wd: "Weekday (Truncate24h (4 * Day)) = DayOfWeek runaway_rule" by code_simp
  have after: "tod_After (10, 0) (9, 0)" by code_simp
  have md: "minutes_duration 153722868 = - 9223371993709551616" by code_simp
  have tl: "tile_loop (- 9223371993709551616) (Date_at (Truncate24h (4 * Day)) (10, 0)) (4 * Day) (5 * Day)
      (Available runaway_rule) (Date_at (Truncate24h (4 * Day)) (9, 0)) [] = None"
    by (rule tile_loop_nonpositive) (simp_all add: Date_at_def Truncate24h_def Day_def tod_offset_def Hour_def Minute_def)
  have le: "Truncate24h (4 * Day) \<le> Truncate24h (5 * Day)" by code_simp
  have "days_loop (Truncate24h (4 * Day)) (Truncate24h (5 * Day)) (4 * Day) (5 * Day) [runaway_rule] [] = None"
    by (subst days_loop.simps) (simp add: le wd facts after md tl)
  then have "GenerateAvailableSlots runaway_store ''u1'' (4 * Day) (5 * Day) = None"
    by (simp add: GenerateAvailableSlots_def list)
  with facts show ?thesis by simp
qed

section \<open>The window filter\<close>



section \<open>Slots that are already booked\<close>

text \<open>
  A confirmed booking of the user is loaded when it starts within one hour of the
  window, so a returned slot never starts at the start of such a booking as long as no
  slot of the user is longer than one hour.
\<close>

lemma booked_starts_removed_within_hour:
  assumes gen: "GenerateAvailableSlots st u f t = Some (Inr slots)" and sl: "sl \<in> set slots"
    and short: "\<forall>r\<in>set (rules st). UserID r = u \<longrightarrow> minutes_duration (SlotLengthMins r) \<le> Hour"
    and b: "b \<in> set (bookings st)" "BookingUserID b = u" "Status b = ''confirmed''"
  shows "StartAtUTC b \<noteq> StartUTC sl"
proof
  assume eq: "StartAtUTC b = StartUTC sl"
  obtain r day s e and k :: nat where
    r: "r \<in> set (rules st)" "UserID r = u"
    and e: "EndUTC sl = StartUTC sl + minutes_duration (SlotLengthMins r)"
    and w: "f < EndUTC sl" "StartUTC sl < t"
    by (rule slot_provenance[OF gen sl])
  from short r have "minutes_duration (SlotLengthMins r) \<le> Hour" by blast
  with e w eq have "f - Hour \<le> StartAtUTC b" "StartAtUTC b < t + Hour"
    by (simp_all add: Hour_def)
  with b GenerateAvailableSlots_mem[OF gen, of sl] sl
  have "Unix (StartAtUTC b) \<noteq> Unix (StartUTC sl)" by blast
  with eq show False by simp
qed

text \<open>
  Claim C2: no slot that the derivation returns starts exactly at the start of a
  confirmed booking of the user. The code does not keep this for slots longer than one
  hour. Here the rule has one slot from 09:00 to 11:00, which is booked and confirmed,
  and the window runs from 10:30 to 11:00: the slot overlaps the window, the booking
  starts more than one hour before the window and is not loaded, and the derivation
  returns the booked slot.
\<close>

theorem booked_long_slot_still_offered:
  "GenerateAvailableSlots long_store ''u1'' 383400000000000 385200000000000
     = Some (Inr [\<lparr>StartUTC = 378000000000000, EndUTC = 385200000000000\<rparr>])
   \<and> CheckExistingBookingAtStart long_store ''u1'' 378000000000000 = Inr (Some 7)
   \<and> bookings long_store = [long_booking]
   \<and> BookingUserID long_booking = ''u1''
   \<and> Status long_booking = ''confirmed''
   \<and> StartAtUTC long_booking = 378000000000000"
  by code_simp

section \<open>The outcomes of \<^verbatim>\<open>CreateBooking\<close>\<close>



section \<open>Bookings are derived slots\<close>

text \<open>
  Claim C10, amended. On every store, the start and the end of every booking that
  \<^verbatim>\<open>CreateBooking\<close> creates are the start and the end of a slot that the derivation
  returned for the user's rules during the call. When, moreover, every rule of the user
  has a slot length of at most 153722867 minutes in absolute value, both instants are
  whole minutes, and so is the start of every candidate slot of the user's rules; a
  candidate slot then starts in the same Unix second as the booking if and only if it
  starts at the same instant.
\<close>

theorem created_booking_is_a_derived_slot:
  assumes "CreateBooking st now u req = Some (Inr b, st')"
  shows "(\<exists>slots. GenerateAvailableSlots st u (ReqStart req - Second) (ReqEnd req + Second)
                    = Some (Inr slots)
            \<and> (\<exists>sl\<in>set slots. StartUTC sl = StartAtUTC b \<and> EndUTC sl = EndAtUTC b))
       \<and> ((\<forall>r\<in>set (rules st). UserID r = u \<longrightarrow> \<bar>SlotLengthMins r\<bar> \<le> 153722867)
           \<longrightarrow> StartAtUTC b mod Minute = 0 \<and> EndAtUTC b mod Minute = 0
               \<and> (\<forall>r\<in>set (rules st). UserID r = u \<longrightarrow>
                     (\<forall>day f t. \<forall>sl\<in>set (rule_tiles day f t r).
                         (Unix (StartUTC sl) = Unix (StartAtUTC b))
                           = (StartUTC sl = StartAtUTC b))))"
proof -
  from CreateBooking_success[OF assms] obtain slots sl where
    gen: "GenerateAvailableSlots st u (ReqStart req - Second) (ReqEnd req + Second) = Some (Inr slots)"
    and sl: "sl \<in> set slots" "StartUTC sl = ReqStart req" "EndUTC sl = ReqEnd req"
    and b: "StartAtUTC b = ReqStart req" "EndAtUTC b = ReqEnd req"
    by auto
  have 1: "\<exists>slots. GenerateAvailableSlots st u (ReqStart req - Second) (ReqEnd req + Second)
                    = Some (Inr slots)
            \<and> (\<exists>sl\<in>set slots. StartUTC sl = StartAtUTC b \<and> EndUTC sl = EndAtUTC b)"
    using gen sl b by auto
  have 2: "StartAtUTC b mod Minute = 0 \<and> EndAtUTC b mod Minute = 0
               \<and> (\<forall>r\<in>set (rules st). UserID r = u \<longrightarrow>
                     (\<forall>day f t. \<forall>sl\<in>set (rule_tiles day f t r).
                         (Unix (StartUTC sl) = Unix (StartAtUTC b))
                           = (StartUTC sl = StartAtUTC b)))"
    if bound: "\<forall>r\<in>set (rules st). UserID r = u \<longrightarrow> \<bar>SlotLengthMins r\<bar> \<le> 153722867"
  proof -
    from GenerateAvailableSlots_mem[OF gen, of sl] sl(1) obtain j :: nat and r where
      r: "r \<in> set (rules st)" "UserID r = u"
      and m: "sl \<in> set (rule_tiles (Truncate24h (ReqStart req - Second) + int j * Day)
                  (ReqStart req - Second) (ReqEnd req + Second) r)"
      by blast
    from bound r have "\<bar>SlotLengthMins r\<bar> \<le> 153722867" by blast
    from rule_tile_whole_minute[OF m this] sl b
    have whole: "StartAtUTC b mod Minute = 0" "EndAtUTC b mod Minute = 0" by simp_all
    have 3: "(Unix (StartUTC sl') = Unix (StartAtUTC b)) = (StartUTC sl' = StartAtUTC b)"
      if "r' \<in> set (rules st)" "UserID r' = u" "sl' \<in> set (rule_tiles day f t r')"
      for r' day f t sl'
    proof -
      from bound that have "\<bar>SlotLengthMins r'\<bar> \<le> 153722867" by blast
      from rule_tile_whole_minute[OF that(3) this] whole(1)
      show ?thesis by (intro whole_minute_Unix) simp_all
    qed
    from whole 3 show ?thesis by blast
  qed
  from 1 2 show ?thesis by blast
qed

theorem created_booking_is_a_derived_slot_witness:
  "(\<exists>slots. GenerateAvailableSlots monday_store ''u1'' (ReqStart nine_request - Second)
               (ReqEnd nine_request + Second) = Some (Inr slots)
       \<and> (\<exists>sl\<in>set slots. StartUTC sl = 378000000000000 \<and> EndUTC sl = 379800000000000))
   \<and> (378000000000000::int) mod Minute = 0 \<and> (379800000000000::int) mod Minute = 0
   \<and> (\<exists>slots. GenerateAvailableSlots wrapping_store ''u1'' (ReqStart wrapped_request - Second)
               (ReqEnd wrapped_request + Second) = Some (Inr slots)
       \<and> (\<exists>sl\<in>set slots. StartUTC sl = 379766290448384 \<and> EndUTC sl = 381532580896768))"
proof -
  have g: "GenerateAvailableSlots monday_store ''u1'' (ReqStart nine_request - Second)
       (ReqEnd nine_request + Second)
      = Some (Inr [\<lparr>StartUTC = 378000000000000, EndUTC = 379800000000000\<rparr>,
                   \<lparr>StartUTC = 379800000000000, EndUTC = 381600000000000\<rparr>])"
    by code_simp
  have h: "healthy monday_store"
    by (simp add: healthy_def example_defs)
  have free: "\<not> (\<exists>b\<in>set (bookings monday_store). BookingUserID b = ''u1''
      \<and> Status b = ''confirmed'' \<and> StartAtUTC b = ReqStart nine_request)"
    by (simp add: example_defs)
  have y: "\<exists>sl\<in>set [\<lparr>StartUTC = 378000000000000, EndUTC = 379800000000000\<rparr>,
                   \<lparr>StartUTC = 379800000000000, EndUTC = 381600000000000\<rparr>].
       StartUTC sl = ReqStart nine_request \<and> EndUTC sl = ReqEnd nine_request"
    by (simp add: example_defs)
  from CreateBooking_commits[OF h free g y, of 5] obtain b st' where
    ev: "CreateBooking monday_store 5 ''u1'' nine_request = Some (Inr b, st')"
    and b: "StartAtUTC b = 378000000000000" "EndAtUTC b = 379800000000000"
    by (auto simp: example_defs)
  have bound: "\<forall>r\<in>set (rules monday_store). UserID r = ''u1'' \<longrightarrow> \<bar>SlotLengthMins r\<bar> \<le> 153722867"
    by (simp add: example_defs)
  note T = created_booking_is_a_derived_slot[OF ev]
  from T[THEN conjunct1] T[THEN conjunct2, THEN mp, OF bound]
  have inside: "(\<exists>slots. GenerateAvailableSlots monday_store ''u1'' (ReqStart nine_request - Second)
               (ReqEnd nine_request + Second) = Some (Inr slots)
       \<and> (\<exists>sl\<in>set slots. StartUTC sl = 378000000000000 \<and> EndUTC sl = 379800000000000))
   \<and> (378000000000000::int) mod Minute = 0 \<and> (379800000000000::int) mod Minute = 0"
    unfolding b by blast
  have g': "GenerateAvailableSlots wrapping_store ''u1'' (ReqStart wrapped_request - Second)
       (ReqEnd wrapped_request + Second)
      = Some (Inr [\<lparr>StartUTC = 378000000000000, EndUTC = 379766290448384\<rparr>,
                   \<lparr>StartUTC = 379766290448384, EndUTC = 381532580896768\<rparr>])"
    by code_simp
  have h': "healthy wrapping_store"
    by (simp add: healthy_def example_defs)
  have free': "\<not> (\<exists>b\<in>set (bookings wrapping_store). BookingUserID b = ''u1''
      \<and> Status b = ''confirmed'' \<and> StartAtUTC b = ReqStart wrapped_request)"
    by (simp add: example_defs)
  have y': "\<exists>sl\<in>set [\<lparr>StartUTC = 378000000000000, EndUTC = 379766290448384\<rparr>,
                   \<lparr>StartUTC = 379766290448384, EndUTC = 381532580896768\<rparr>].
       StartUTC sl = ReqStart wrapped_request \<and> EndUTC sl = ReqEnd wrapped_request"
    by (simp add: example_defs)
  from CreateBooking_commits[OF h' free' g' y', of 5] obtain b' st'' where
    ev': "CreateBooking wrapping_store 5 ''u1'' wrapped_request = Some (Inr b', st'')"
    and b': "StartAtUTC b' = 379766290448384" "EndAtUTC b' = 381532580896768"
    by (auto simp: example_defs)
  from created_booking_is_a_derived_slot[OF ev', THEN conjunct1]
  have outside: "\<exists>slots. GenerateAvailableSlots wrapping_store ''u1''
               (ReqStart wrapped_request - Second) (ReqEnd wrapped_request + Second)
               = Some (Inr slots)
       \<and> (\<exists>sl\<in>set slots. StartUTC sl = 379766290448384 \<and> EndUTC sl = 381532580896768)"
    unfolding b' .
  from inside outside show ?thesis by simp
qed

theorem wrapped_booking_counterexample:
  "map_option fst (CreateBooking wrapping_store 5 ''u1'' wrapped_request)
     = Some (Inr \<lparr>BookingID = 2, BookingUserID = ''u1'', CandidateEmail = ''c@example.org'',
                  StartAtUTC = 379766290448384, EndAtUTC = 381532580896768,
                  Status = ''confirmed'', Source = ''api'', Type = ''call'',
                  Description = ''intro'', BookingTitle = ''hello'', BookingCreatedAt = 5\<rparr>)
   \<and> (379766290448384::int) mod Minute \<noteq> 0
   \<and> (381532580896768::int) mod Minute \<noteq> 0"
  by code_simp

section \<open>Updating a rule\<close>

text \<open>
  Claim C7. \<^verbatim>\<open>UpdateAvailability\<close> on an existing rule of the user, with a supplied
  \<^verbatim>\<open>dayOfWeek\<close> of 0: when the supplied times pass the validation, the update
  succeeds and the stored rule, which is also the rule returned, keeps its day of the
  week, its id, its user and its creation time, and has the supplied start time, end
  time, slot length, title and available flag. When the supplied times do not pass, the
  call fails with the validation's error and the store is as it was.
\<close>

theorem UpdateAvailability_keeps_day_of_week:
  assumes "\<not> failing st CallGetAvailabilityRule" "\<not> failing st CallUpdateAvailabilityRule"
    and "GetAvailabilityRule st u rid = Inr existing"
    and "DayOfWeek rule = 0"
  shows "(validateAvailabilityRule rule = None \<longrightarrow>
            (\<exists>r' st'. UpdateAvailability st now u rid rule = (Inr r', st')
               \<and> GetAvailabilityRule st' u rid = Inr r'
               \<and> DayOfWeek r' = DayOfWeek existing
               \<and> StartTime r' = StartTime rule \<and> EndTime r' = EndTime rule
               \<and> SlotLengthMins r' = SlotLengthMins rule \<and> Title r' = Title rule
               \<and> Available r' = Available rule
               \<and> ID r' = rid \<and> UserID r' = u \<and> CreatedAt r' = CreatedAt existing))
       \<and> (validateAvailabilityRule rule = Some e \<longrightarrow>
            UpdateAvailability st now u rid rule = (Inl e, st))"
proof (intro conjI impI)
  define rule' where "rule' = rule\<lparr>DayOfWeek := DayOfWeek existing\<rparr>"
  have v: "validateAvailabilityRule rule' = validateAvailabilityRule rule"
    by (rule validateAvailabilityRule_times) (simp_all add: rule'_def)
  {
    assume "validateAvailabilityRule rule = Some e"
    with v assms(3,4) show "UpdateAvailability st now u rid rule = (Inl e, st)"
      by (simp add: UpdateAvailability_def rule'_def)
  }
  assume ok: "validateAvailabilityRule rule = None"
  define g :: "AvailabilityRule \<Rightarrow> AvailabilityRule" where "g = (\<lambda>r. r\<lparr>DayOfWeek := DayOfWeek rule', StartTime := StartTime rule',
      EndTime := EndTime rule', SlotLengthMins := SlotLengthMins rule', Title := Title rule',
      Available := Available rule', UpdatedAt := now\<rparr>)"
  define st' where "st' = st\<lparr>rules :=
      map (\<lambda>r. if ID r = rid \<and> UserID r = u then g r else r) (rules st)\<rparr>"
  from assms(1,3) obtain rest where
    f: "filter (\<lambda>r. ID r = rid \<and> UserID r = u) (rules st) = existing # rest"
    by (auto simp: GetAvailabilityRule_def split: list.splits)
  then have "existing \<in> set (filter (\<lambda>r. ID r = rid \<and> UserID r = u) (rules st))" by simp
  then have ex: "ID existing = rid" "UserID existing = u" by simp_all
  have upd: "UpdateAvailabilityRule st now u rid rule' = Inr (rid, st')"
    using assms(2) f ex by (simp add: UpdateAvailabilityRule_def Let_def st'_def g_def)
  have "filter (\<lambda>r. ID r = rid \<and> UserID r = u) (rules st') = map g (existing # rest)"
    unfolding st'_def f[symmetric]
    by (simp add: filter_map_update_rule[where g = g] g_def)
  then have get: "GetAvailabilityRule st' u rid = Inr (g existing)"
    using assms(1) by (simp add: GetAvailabilityRule_def st'_def)
  have res: "UpdateAvailability st now u rid rule = (Inr (g existing), st')"
    using assms(3,4) ok v upd get by (simp add: UpdateAvailability_def rule'_def[symmetric])
  show "\<exists>r' st'. UpdateAvailability st now u rid rule = (Inr r', st')
               \<and> GetAvailabilityRule st' u rid = Inr r'
               \<and> DayOfWeek r' = DayOfWeek existing
               \<and> StartTime r' = StartTime rule \<and> EndTime r' = EndTime rule
               \<and> SlotLengthMins r' = SlotLengthMins rule \<and> Title r' = Title rule
               \<and> Available r' = Available rule
               \<and> ID r' = rid \<and> UserID r' = u \<and> CreatedAt r' = CreatedAt existing"
    using res get ex
    by (intro exI[of _ "g existing"] exI[of _ st']) (simp add: g_def rule'_def)
qed

theorem UpdateAvailability_keeps_day_of_week_witness:
  "(\<exists>r' st'. UpdateAvailability monday_store 9 ''u1'' 1 update_input = (Inr r', st')
       \<and> GetAvailabilityRule st' ''u1'' 1 = Inr r'
       \<and> DayOfWeek r' = DayOfWeek monday_rule
       \<and> StartTime r' = StartTime update_input \<and> EndTime r' = EndTime update_input
       \<and> SlotLengthMins r' = SlotLengthMins update_input \<and> Title r' = Title update_input
       \<and> Available r' = Available update_input
       \<and> ID r' = 1 \<and> UserID r' = ''u1'' \<and> CreatedAt r' = CreatedAt monday_rule)
   \<and> UpdateAvailability monday_store 9 ''u1'' 1 backwards_input
       = (Inl EndNotAfterStart, monday_store)"
proof -
  have f: "\<not> failing monday_store CallGetAvailabilityRule"
    "\<not> failing monday_store CallUpdateAvailabilityRule"
    by (simp_all add: example_defs)
  have get: "GetAvailabilityRule monday_store ''u1'' 1 = Inr monday_rule"
    by (simp add: GetAvailabilityRule_def example_defs)
  have dow: "DayOfWeek update_input = 0" "DayOfWeek backwards_input = 0"
    by (simp_all add: example_defs)
  have valid: "validateAvailabilityRule update_input = None" by code_simp
  have invalid: "validateAvailabilityRule backwards_input = Some EndNotAfterStart" by code_simp
  note T1 = UpdateAvailability_keeps_day_of_week[OF f get dow(1), THEN conjunct1, rule_format,
      OF valid]
  note T2 = UpdateAvailability_keeps_day_of_week[OF f get dow(2), THEN conjunct2, rule_format,
      OF invalid]
  from T1 T2 show ?thesis by (intro conjI)
qed

section \<open>Setting rules in a batch\<close>

text \<open>
  Claim C8. \<^verbatim>\<open>SetAvailability\<close> on a batch in which the rules before \<open>bad\<close> pass
  the validation and \<open>bad\<close> has parseable times with an end that is not after its
  start: the call fails with \<open>EndNotAfterStart\<close> (a validation error), and the rules
  table afterwards is the table before followed by the rules of the batch before
  \<open>bad\<close>, each with a fresh id, the user and the time of the call. So \<open>bad\<close> and
  the rules after it are not persisted, the rules before it stay persisted, and the
  batch is not atomic.
\<close>

theorem SetAvailability_partial_insertion:
  assumes "\<not> failing st CallInsertAvailabilityRule"
    and "\<forall>r\<in>set pre. validateAvailabilityRule r = None"
    and "time_Parse_1504 (StartTime bad) = Some s" "time_Parse_1504 (EndTime bad) = Some e"
    and "\<not> tod_After e s"
  shows "\<exists>st'. SetAvailability st now u (pre @ bad # post) = (Inl EndNotAfterStart, st')
           \<and> rules st' = rules st @
                map (\<lambda>(i, r). r\<lparr>ID := i, UserID := u, CreatedAt := now, UpdatedAt := now\<rparr>)
                    (enumerate (next_id st) pre)
           \<and> bookings st' = bookings st"
proof -
  have "validateAvailabilityRule bad = Some EndNotAfterStart"
    using assms(3,4,5) by (simp add: validateAvailabilityRule_def)
  from SetAvailability_loop_stops[OF assms(1,2) this, of now u post "[]"]
  show ?thesis by (simp add: SetAvailability_def)
qed

theorem SetAvailability_partial_insertion_witness:
  "\<exists>st'. SetAvailability monday_store 9 ''u1'' ([afternoon_rule] @ backwards_rule # [afternoon_rule])
           = (Inl EndNotAfterStart, st')
      \<and> rules st' = [monday_rule,
                      afternoon_rule\<lparr>ID := 2, UserID := ''u1'', CreatedAt := 9, UpdatedAt := 9\<rparr>]
      \<and> bookings st' = []"
proof -
  have f: "\<not> failing monday_store CallInsertAvailabilityRule"
    by (simp add: example_defs)
  have "validateAvailabilityRule afternoon_rule = None" by code_simp
  then have pre: "\<forall>r\<in>set [afternoon_rule]. validateAvailabilityRule r = None" by simp
  have p: "time_Parse_1504 (StartTime backwards_rule) = Some (10, 0)"
    "time_Parse_1504 (EndTime backwards_rule) = Some (9, 0)"
    "\<not> tod_After (9, 0) (10, 0)"
    by code_simp+
  from SetAvailability_partial_insertion[OF f pre p, of 9 "''u1''" "[afternoon_rule]"]
  obtain st' where
    "SetAvailability monday_store 9 ''u1'' ([afternoon_rule] @ backwards_rule # [afternoon_rule])
       = (Inl EndNotAfterStart, st')"
    "rules st' = rules monday_store @
       map (\<lambda>(i, r). r\<lparr>ID := i, UserID := ''u1'', CreatedAt := 9, UpdatedAt := 9\<rparr>)
           (enumerate (next_id monday_store) [afternoon_rule])"
    "bookings st' = bookings monday_store"
    by blast
  moreover have "next_id monday_store = 2" "rules monday_store = [monday_rule]"
    "bookings monday_store = []"
    by (simp_all add: monday_store_def)
  ultimately show ?thesis by (intro exI[of _ st']) simp
qed

end
